theory Spec2Isabelle
  imports Complex_Main
begin

section \<open>Python values\<close>

text \<open>
  The supervisor script \<^verbatim>\<open>run-task.py\<close> works on the values that \<^verbatim>\<open>json.loads\<close> returns and
  on a handful of literals. They are modelled by one datatype: \<open>JNull\<close> is Python's \<^verbatim>\<open>None\<close>,
  \<open>JObj\<close> a \<^verbatim>\<open>dict\<close> with string keys (an association list whose keys are distinct, in
  insertion order), \<open>JArr\<close> a \<^verbatim>\<open>list\<close>. A \<open>char\<close> stands for one code point of a Python
  \<^verbatim>\<open>str\<close>. A finite \<^verbatim>\<open>float\<close> is read as the real number it denotes.
\<close>

datatype json =
    JNull
  | JBool bool
  | JInt int
  | JFloat real
  | JStr string
  | JArr "json list"
  | JObj "(string \<times> json) list"

text \<open>
  The exceptions that the modelled code can raise. \<open>OSError\<close> and \<open>UnicodeEncodeError\<close> are
  what saving the result text can raise: a path that cannot be written, a text that the
  file's encoding cannot hold.
\<close>

datatype exn =
  JSONDecodeError | KeyError | AttributeError | TypeError | OSError | UnicodeEncodeError

section \<open>Rendering integers and floats\<close>

text \<open>\<^verbatim>\<open>str(n)\<close> for an \<^verbatim>\<open>int\<close>: the decimal numeral, with a minus sign below zero.\<close>

fun str_nat :: "nat \<Rightarrow> string" where
  "str_nat n =
     (if n < 10 then [''0123456789'' ! n]
      else str_nat (n div 10) @ [''0123456789'' ! (n mod 10)])"

declare str_nat.simps [simp del]

definition py_str_int :: "int \<Rightarrow> string" where
  "py_str_int i = (if i < 0 then ''-'' @ str_nat (nat (- i)) else str_nat (nat i))"

text \<open>
  The nearest integer to \<open>a / b\<close> for \<open>0 < b\<close>, ties to the even neighbour: the rounding of
  IEEE-754 arithmetic and of Python's float formatting.
\<close>

definition round_half_even :: "int \<Rightarrow> int \<Rightarrow> int" where
  "round_half_even a b =
     (let q = a div b; r = a mod b
      in if 2 * r < b then q else if b < 2 * r then q + 1
         else if even q then q else q + 1)"

fun ilog2 :: "nat \<Rightarrow> nat" where
  "ilog2 n = (if n < 2 then 0 else Suc (ilog2 (n div 2)))"

declare ilog2.simps [simp del]

text \<open>
  \<^verbatim>\<open>a / b\<close> on two \<^verbatim>\<open>int\<close>s with \<open>0 < b \<le> a\<close> and a quotient below \<open>2 ^ 53\<close>: the binary64
  number nearest to the quotient. The result \<open>(m, s)\<close> denotes \<open>m / 2 ^ s\<close>; with
  \<open>e = ilog2 (a div b)\<close> the quotient lies in \<open>[2 ^ e, 2 ^ (e + 1))\<close>, where binary64 numbers
  are \<open>2 ^ (e - 52)\<close> apart.
\<close>

definition truediv :: "int \<Rightarrow> int \<Rightarrow> int \<times> nat" where
  "truediv a b =
     (let e = ilog2 (nat (a div b)); s = 52 - e
      in (round_half_even (a * 2 ^ s) b, s))"

text \<open>
  The format \<^verbatim>\<open>{x:.1f}\<close> of a non-negative binary64 number \<open>x = m / 2 ^ s\<close>: the exact value
  of \<open>x\<close> correctly rounded to one decimal digit.
\<close>

definition fmt_1f :: "int \<times> nat \<Rightarrow> string" where
  "fmt_1f x =
     (let k = round_half_even (10 * fst x) (2 ^ snd x)
      in py_str_int (k div 10) @ ''.'' @ py_str_int (k mod 10))"

text \<open>
  \<^verbatim>\<open>
  def format_tokens(n: int) -> str:
      if n < 1000:
          return str(n)
      elif n < 10000:
          return f"{n/1000:.1f}K"
      else:
          return f"{n//1000}K"
  \<close>
\<close>

definition format_tokens :: "int \<Rightarrow> string" where
  "format_tokens n =
     (if n < 1000 then py_str_int n
      else if n < 10000 then fmt_1f (truediv n 1000) @ ''K''
      else py_str_int (n div 1000) @ ''K'')"

section \<open>Python operations on JSON values\<close>

text \<open>Truth value of a Python object, as \<^verbatim>\<open>if x:\<close> and \<^verbatim>\<open>not x\<close> test it.\<close>

fun truthy :: "json \<Rightarrow> bool" where
  "truthy JNull = False"
| "truthy (JBool b) = b"
| "truthy (JInt i) = (i \<noteq> 0)"
| "truthy (JFloat r) = (r \<noteq> 0)"
| "truthy (JStr s) = (s \<noteq> [])"
| "truthy (JArr xs) = (xs \<noteq> [])"
| "truthy (JObj kvs) = (kvs \<noteq> [])"

text \<open>Truth value of an optional command-line string (\<^verbatim>\<open>None\<close> or a \<^verbatim>\<open>str\<close>).\<close>

fun given :: "string option \<Rightarrow> bool" where
  "given None = False"
| "given (Some s) = (s \<noteq> [])"

text \<open>\<^verbatim>\<open>x.get(k, d)\<close>: only a \<^verbatim>\<open>dict\<close> has the method.\<close>

definition py_get :: "json \<Rightarrow> string \<Rightarrow> json \<Rightarrow> exn + json" where
  "py_get x k d =
     (case x of
        JObj kvs \<Rightarrow> Inr (case map_of kvs k of Some v \<Rightarrow> v | None \<Rightarrow> d)
      | _ \<Rightarrow> Inl AttributeError)"

text \<open>\<^verbatim>\<open>p in s\<close> on two strings: \<open>p\<close> occurs in \<open>s\<close> as a contiguous piece.\<close>

fun contains_str :: "string \<Rightarrow> string \<Rightarrow> bool" where
  "contains_str p [] = (p = [])"
| "contains_str p (c # cs) = (take (length p) (c # cs) = p \<or> contains_str p cs)"

text \<open>
  \<^verbatim>\<open>k in x\<close> for a string \<open>k\<close>: key test on a \<^verbatim>\<open>dict\<close>, substring test on a \<^verbatim>\<open>str\<close>, membership
  on a \<^verbatim>\<open>list\<close>; the other values are not iterable.
\<close>

definition py_in :: "string \<Rightarrow> json \<Rightarrow> exn + bool" where
  "py_in k x =
     (case x of
        JObj kvs \<Rightarrow> Inr (map_of kvs k \<noteq> None)
      | JStr s \<Rightarrow> Inr (contains_str k s)
      | JArr vs \<Rightarrow> Inr (JStr k \<in> set vs)
      | _ \<Rightarrow> Inl TypeError)"

text \<open>\<^verbatim>\<open>x[k]\<close> for a string \<open>k\<close>.\<close>

definition py_item :: "json \<Rightarrow> string \<Rightarrow> exn + json" where
  "py_item x k =
     (case x of
        JObj kvs \<Rightarrow> (case map_of kvs k of Some v \<Rightarrow> Inr v | None \<Rightarrow> Inl KeyError)
      | _ \<Rightarrow> Inl TypeError)"

text \<open>\<^verbatim>\<open>for b in x\<close>: a \<^verbatim>\<open>dict\<close> yields its keys, a \<^verbatim>\<open>str\<close> its characters.\<close>

definition py_iter :: "json \<Rightarrow> exn + json list" where
  "py_iter x =
     (case x of
        JArr vs \<Rightarrow> Inr vs
      | JObj kvs \<Rightarrow> Inr (map (\<lambda>kv. JStr (fst kv)) kvs)
      | JStr s \<Rightarrow> Inr (map (\<lambda>c. JStr [c]) s)
      | _ \<Rightarrow> Inl TypeError)"

text \<open>\<^verbatim>\<open>s.lower()\<close>, on the letters A to Z.\<close>

definition lower_char :: "char \<Rightarrow> char" where
  "lower_char c =
     (case map_of (zip ''ABCDEFGHIJKLMNOPQRSTUVWXYZ'' ''abcdefghijklmnopqrstuvwxyz'') c of
        Some l \<Rightarrow> l
      | None \<Rightarrow> c)"

definition py_lower :: "json \<Rightarrow> exn + string" where
  "py_lower x = (case x of JStr s \<Rightarrow> Inr (map lower_char s) | _ \<Rightarrow> Inl AttributeError)"

text \<open>\<^verbatim>\<open>s.split(d)\<close> for a one-character separator: never the empty list.\<close>

fun split_on :: "char \<Rightarrow> string \<Rightarrow> string list" where
  "split_on d [] = [[]]"
| "split_on d (c # cs) =
     (if c = d then [] # split_on d cs
      else (case split_on d cs of p # ps \<Rightarrow> (c # p) # ps | [] \<Rightarrow> [[c]]))"

text \<open>\<^verbatim>\<open>fp.split("/")[-1]\<close>.\<close>

definition py_basename :: "json \<Rightarrow> exn + string" where
  "py_basename x =
     (case x of JStr s \<Rightarrow> Inr (last (split_on CHR ''/'' s)) | _ \<Rightarrow> Inl AttributeError)"

text \<open>
  \<^verbatim>\<open>x[:50]\<close>. A \<^verbatim>\<open>dict\<close> looks the slice up as a key and raises \<^verbatim>\<open>KeyError\<close>, as Python
  does from version 3.12 on, where slices are hashable (before, the slice is unhashable and
  the error is a \<^verbatim>\<open>TypeError\<close>). No property below depends on the choice.
\<close>

definition py_slice50 :: "json \<Rightarrow> exn + json" where
  "py_slice50 x =
     (case x of
        JStr s \<Rightarrow> Inr (JStr (take 50 s))
      | JArr vs \<Rightarrow> Inr (JArr (take 50 vs))
      | JObj kvs \<Rightarrow> Inl KeyError
      | _ \<Rightarrow> Inl TypeError)"

text \<open>\<^verbatim>\<open>line.strip()\<close>: the white space of \<^verbatim>\<open>str.isspace\<close> among the first 256 code points.\<close>

definition is_space :: "char \<Rightarrow> bool" where
  "is_space c \<longleftrightarrow>
     c \<in> set [CHR 0x20, CHR 0x09, CHR 0x0A, CHR 0x0B, CHR 0x0C, CHR 0x0D,
              CHR 0x1C, CHR 0x1D, CHR 0x1E, CHR 0x1F, CHR 0x85, CHR 0xA0]"

definition py_strip :: "string \<Rightarrow> string" where
  "py_strip s = rev (dropWhile is_space (rev (dropWhile is_space s)))"

text \<open>\<^verbatim>\<open>int(x)\<close> on a \<^verbatim>\<open>float\<close>: truncation towards zero.\<close>

definition py_int :: "real \<Rightarrow> int" where
  "py_int x = (if 0 \<le> x then \<lfloor>x\<rfloor> else \<lceil>x\<rceil>)"

section \<open>Progress state\<close>

text \<open>A token count: an \<^verbatim>\<open>int\<close> until a \<^verbatim>\<open>float\<close> has been added to it.\<close>

datatype pynum = PInt int | PFloat real

text \<open>\<^verbatim>\<open>n += v\<close> for a number \<open>n\<close> and a JSON value \<open>v\<close>; a \<^verbatim>\<open>bool\<close> counts as 0 or 1.\<close>

fun num_add :: "pynum \<Rightarrow> json \<Rightarrow> exn + pynum" where
  "num_add (PInt a) (JInt i) = Inr (PInt (a + i))"
| "num_add (PInt a) (JBool b) = Inr (PInt (a + of_bool b))"
| "num_add (PInt a) (JFloat r) = Inr (PFloat (of_int a + r))"
| "num_add (PFloat x) (JInt i) = Inr (PFloat (x + of_int i))"
| "num_add (PFloat x) (JBool b) = Inr (PFloat (x + of_bool b))"
| "num_add (PFloat x) (JFloat r) = Inr (PFloat (x + r))"
| "num_add n v = Inl TypeError"

fun num_positive :: "pynum \<Rightarrow> bool" where
  "num_positive (PInt a) = (0 < a)"
| "num_positive (PFloat x) = (0 < x)"

text \<open>
  The activity descriptor \<^verbatim>\<open>state["last_activity"]\<close>. Each constructor is one of the
  f-strings of \<^verbatim>\<open>parse_stream_line\<close> with the values it interpolates; \<open>NoActivity\<close> is the
  initial empty string, the only falsy one.
\<close>

datatype activity =
    NoActivity
  | ToolStarting json
  | Thinking
  | Writing
  | Edited string string
  | ReadFile string
  | RunBash json
  | Searching string
  | UsingTool string
  | Finishing

text \<open>
  \<^verbatim>\<open>
  state = {"tool_calls": 0, "files_written": [], "last_activity": "", "session_id": None,
           "last_event_time": time.time(), "output_tokens": 0, "chunks_since_heartbeat": 0}
  \<close>
\<close>

record progress =
  tool_calls :: int
  files_written :: "string list"
  last_activity :: activity
  session_id :: json
  last_event_time :: real
  output_tokens :: pynum
  chunks_since_heartbeat :: int

definition init_state :: "real \<Rightarrow> progress" where
  "init_state now =
     \<lparr>tool_calls = 0, files_written = [], last_activity = NoActivity, session_id = JNull,
      last_event_time = now, output_tokens = PInt 0, chunks_since_heartbeat = 0\<rparr>"

section \<open>Event parser\<close>

text \<open>
  A statement sequence that mutates the state and may raise: it returns the exception, if
  any, together with the state as it stands when the sequence ends or raises.
\<close>

type_synonym effect = "progress \<Rightarrow> exn option \<times> progress"

definition raise :: "exn \<Rightarrow> effect" where
  "raise e st = (Some e, st)"

definition pass :: effect where
  "pass st = (None, st)"

text \<open>Evaluate an expression, then run the statements that use its value.\<close>

definition compute :: "exn + 'a \<Rightarrow> ('a \<Rightarrow> effect) \<Rightarrow> effect" where
  "compute x f = (case x of Inl e \<Rightarrow> raise e | Inr v \<Rightarrow> f v)"

definition and_then :: "effect \<Rightarrow> effect \<Rightarrow> effect" where
  "and_then f g st = (case f st of (None, st') \<Rightarrow> g st' | (Some e, st') \<Rightarrow> (Some e, st'))"

definition set_activity :: "activity \<Rightarrow> effect" where
  "set_activity a st = (None, st\<lparr>last_activity := a\<rparr>)"

definition count_chunk :: effect where
  "count_chunk st = (None, st\<lparr>chunks_since_heartbeat := chunks_since_heartbeat st + 1\<rparr>)"

definition count_tool_call :: effect where
  "count_tool_call st = (None, st\<lparr>tool_calls := tool_calls st + 1\<rparr>)"

definition add_tokens :: "json \<Rightarrow> effect" where
  "add_tokens v st =
     (case num_add (output_tokens st) v of
        Inl e \<Rightarrow> (Some e, st)
      | Inr n \<Rightarrow> (None, st\<lparr>output_tokens := n\<rparr>))"

text \<open>
  \<^verbatim>\<open>
  if "output_tokens" in usage:
      state["output_tokens"] += usage["output_tokens"]
  \<close>
\<close>

definition add_usage :: "json \<Rightarrow> effect" where
  "add_usage usage =
     compute (py_in ''output_tokens'' usage) (\<lambda>present.
       if present then compute (py_item usage ''output_tokens'') add_tokens else pass)"

text \<open>
  \<^verbatim>\<open>
  inner = data
  inner_type = msg_type
  if msg_type == "stream_event":
      inner = data.get("event", {})
      inner_type = inner.get("type", "")
  \<close>
\<close>

definition unwrap_envelope :: "json \<Rightarrow> json \<Rightarrow> exn + json \<times> json" where
  "unwrap_envelope data msg_type =
     (if msg_type = JStr ''stream_event'' then
        (case py_get data ''event'' (JObj []) of
           Inl e \<Rightarrow> Inl e
         | Inr inner \<Rightarrow>
             (case py_get inner ''type'' (JStr []) of
                Inl e \<Rightarrow> Inl e
              | Inr inner_type \<Rightarrow> Inr (inner, inner_type)))
      else Inr (data, msg_type))"

text \<open>
  \<^verbatim>\<open>
  if msg_type == "system" and data.get("subtype") == "init":
      session_id = data.get("session_id")
      if session_id:
          state["session_id"] = session_id
  \<close>
\<close>

definition store_session_id :: "json \<Rightarrow> effect" where
  "store_session_id sid st = (if truthy sid then (None, st\<lparr>session_id := sid\<rparr>) else (None, st))"

definition capture_session_id :: "json \<Rightarrow> json \<Rightarrow> effect" where
  "capture_session_id data msg_type =
     (if msg_type = JStr ''system'' then
        compute (py_get data ''subtype'' JNull) (\<lambda>subtype.
          if subtype = JStr ''init'' then
            compute (py_get data ''session_id'' JNull) store_session_id
          else pass)
      else pass)"

text \<open>
  The chain \<^verbatim>\<open>if inner_type == "content_block_start": ... elif ... "content_block_delta": ...
  elif ... "content_block_stop": pass elif ... "message_delta": ...\<close>
\<close>

definition content_block_events :: "json \<Rightarrow> json \<Rightarrow> effect" where
  "content_block_events inner inner_type =
     (if inner_type = JStr ''content_block_start'' then
        compute (py_get inner ''content_block'' (JObj [])) (\<lambda>cb.
          compute (py_get cb ''type'' JNull) (\<lambda>t.
            if t = JStr ''tool_use'' then
              compute (py_get cb ''name'' (JStr ''?'')) (\<lambda>name. set_activity (ToolStarting name))
            else if t = JStr ''thinking'' then set_activity Thinking
            else pass))
      else if inner_type = JStr ''content_block_delta'' then
        and_then count_chunk
          (compute (py_get inner ''delta'' (JObj [])) (\<lambda>delta.
             compute (py_get delta ''type'' JNull) (\<lambda>t.
               if t = JStr ''thinking_delta'' then set_activity Thinking
               else if t = JStr ''text_delta'' then set_activity Writing
               else pass)))
      else if inner_type = JStr ''content_block_stop'' then pass
      else if inner_type = JStr ''message_delta'' then
        compute (py_get inner ''usage'' (JObj [])) add_usage
      else pass)"

text \<open>
  The body of \<^verbatim>\<open>for block in content\<close>:
  \<^verbatim>\<open>
  if block.get("type") == "tool_use":
      state["tool_calls"] += 1
      tool_name = block.get("name", "?")
      tool_input = block.get("input", {})
      if tool_name.lower() in ("write", "edit"):
          fp = tool_input.get("file_path", "?")
          state["files_written"].append(fp.split("/")[-1])
          state["last_activity"] = f"... {tool_name}: {fp.split('/')[-1]}"
      elif tool_name.lower() == "read":
          fp = tool_input.get("file_path", "?")
          state["last_activity"] = f"... read: {fp.split('/')[-1]}"
      elif tool_name.lower() == "bash":
          cmd = tool_input.get("command", "?")[:50]
          state["last_activity"] = f"... bash: {cmd}"
      elif "search" in tool_name.lower() or "grep" in tool_name.lower():
          state["last_activity"] = f"... {tool_name}"
      else:
          state["last_activity"] = f"... {tool_name}"
  \<close>
  Past \<^verbatim>\<open>tool_name.lower()\<close> the tool name is a string, kept as \<open>name\<close>.
\<close>

definition record_edit :: "string \<Rightarrow> string \<Rightarrow> effect" where
  "record_edit name base st =
     (None, st\<lparr>files_written := files_written st @ [base], last_activity := Edited name base\<rparr>)"

definition classify_tool :: "string \<Rightarrow> string \<Rightarrow> json \<Rightarrow> effect" where
  "classify_tool name lname tool_input =
     (if lname = ''write'' \<or> lname = ''edit'' then
        compute (py_get tool_input ''file_path'' (JStr ''?'')) (\<lambda>fp.
          compute (py_basename fp) (record_edit name))
      else if lname = ''read'' then
        compute (py_get tool_input ''file_path'' (JStr ''?'')) (\<lambda>fp.
          compute (py_basename fp) (\<lambda>base. set_activity (ReadFile base)))
      else if lname = ''bash'' then
        compute (py_get tool_input ''command'' (JStr ''?'')) (\<lambda>c.
          compute (py_slice50 c) (\<lambda>cmd. set_activity (RunBash cmd)))
      else if contains_str ''search'' lname \<or> contains_str ''grep'' lname then
        set_activity (Searching name)
      else set_activity (UsingTool name))"

definition tool_use_block :: "json \<Rightarrow> effect" where
  "tool_use_block block =
     compute (py_get block ''type'' JNull) (\<lambda>t.
       if t = JStr ''tool_use'' then
         and_then count_tool_call
           (compute (py_get block ''name'' (JStr ''?'')) (\<lambda>tool_name.
            compute (py_get block ''input'' (JObj [])) (\<lambda>tool_input.
            compute (py_lower tool_name) (\<lambda>lname.
              classify_tool (case tool_name of JStr s \<Rightarrow> s | _ \<Rightarrow> []) lname tool_input))))
       else pass)"

fun for_blocks :: "json list \<Rightarrow> effect" where
  "for_blocks [] = pass"
| "for_blocks (b # bs) = and_then (tool_use_block b) (for_blocks bs)"

text \<open>
  \<^verbatim>\<open>
  if msg_type == "assistant" and "message" in data:
      usage = data.get("message", {}).get("usage", {})
      if "output_tokens" in usage:
          state["output_tokens"] += usage["output_tokens"]
      content = data["message"].get("content", [])
      for block in content:
          ...
  elif msg_type == "result":
      state["last_activity"] = "... finishing..."
  \<close>
\<close>

definition assistant_turn :: "json \<Rightarrow> effect" where
  "assistant_turn data =
     compute (py_get data ''message'' (JObj [])) (\<lambda>message.
     compute (py_get message ''usage'' (JObj [])) (\<lambda>usage.
       and_then (add_usage usage)
         (compute (py_item data ''message'') (\<lambda>message'.
          compute (py_get message' ''content'' (JArr [])) (\<lambda>content.
          compute (py_iter content) for_blocks)))))"

definition assistant_or_result :: "json \<Rightarrow> json \<Rightarrow> effect" where
  "assistant_or_result data msg_type =
     compute (if msg_type = JStr ''assistant'' then py_in ''message'' data else Inr False)
       (\<lambda>is_turn.
          if is_turn then assistant_turn data
          else if msg_type = JStr ''result'' then set_activity Finishing
          else pass)"

text \<open>
  The body of the \<^verbatim>\<open>try\<close> block after \<^verbatim>\<open>data = json.loads(line)\<close>; \<open>now\<close> is what
  \<^verbatim>\<open>time.time()\<close> returns.
\<close>

definition touch :: "real \<Rightarrow> effect" where
  "touch now st = (None, st\<lparr>last_event_time := now\<rparr>)"

definition parse_event :: "json \<Rightarrow> real \<Rightarrow> effect" where
  "parse_event data now =
     compute (py_get data ''type'' (JStr [])) (\<lambda>msg_type.
       and_then (touch now)
         (compute (unwrap_envelope data msg_type) (\<lambda>env.
            and_then (capture_session_id data msg_type)
              (and_then (content_block_events (fst env) (snd env))
                 (assistant_or_result data msg_type)))))"

text \<open>
  \<^verbatim>\<open>
  def parse_stream_line(line: str, state: dict):
      try:
          data = json.loads(line)
          ...
      except (json.JSONDecodeError, KeyError):
          pass
  \<close>
  \<open>loads\<close> stands for \<^verbatim>\<open>json.loads\<close>: \<open>None\<close> where it raises \<^verbatim>\<open>JSONDecodeError\<close>. The result
  is the exception that leaves the function, if any, and the state after the call.
\<close>

definition swallow :: "exn option \<Rightarrow> exn option" where
  "swallow r =
     (case r of
        Some JSONDecodeError \<Rightarrow> None
      | Some KeyError \<Rightarrow> None
      | _ \<Rightarrow> r)"

definition parse_stream_line ::
    "(string \<Rightarrow> json option) \<Rightarrow> string \<Rightarrow> real \<Rightarrow> progress \<Rightarrow> exn option \<times> progress" where
  "parse_stream_line loads line now st =
     (case loads line of
        None \<Rightarrow> (None, st)
      | Some data \<Rightarrow> (case parse_event data now st of (r, st') \<Rightarrow> (swallow r, st')))"

text \<open>
  The reader thread:
  \<^verbatim>\<open>
  def reader():
      for line in proc.stdout:
          line = line.strip()
          if line:
              output_lines.append(line)
              parse_stream_line(line, state)
  \<close>
  Each raw line comes with the clock reading of its call of the parser. An exception that
  leaves the parser ends the thread; the lines after it are never read.
\<close>

fun reader ::
    "(string \<Rightarrow> json option) \<Rightarrow> (string \<times> real) list \<Rightarrow> string list \<times> progress \<Rightarrow>
     exn option \<times> string list \<times> progress" where
  "reader loads [] (out, st) = (None, out, st)"
| "reader loads ((raw, now) # rest) (out, st) =
     (let line = py_strip raw
      in if line = [] then reader loads rest (out, st)
         else (case parse_stream_line loads line now st of
                 (None, st') \<Rightarrow> reader loads rest (out @ [line], st')
               | (Some e, st') \<Rightarrow> (Some e, out @ [line], st')))"

section \<open>Result reconciler\<close>

text \<open>
  First pass over the captured lines:
  \<^verbatim>\<open>
  final_text = ""
  for line in output_lines:
      try:
          data = json.loads(line)
          if data.get("type") == "result":
              final_text = data.get("result", "")
              break
      except (json.JSONDecodeError, KeyError):
          pass
  \<close>
  A line that is JSON but not an object makes \<^verbatim>\<open>data.get\<close> raise \<^verbatim>\<open>AttributeError\<close>, which the
  handler does not catch.
\<close>

fun find_result :: "(string \<Rightarrow> json option) \<Rightarrow> string list \<Rightarrow> exn + json" where
  "find_result loads [] = Inr (JStr [])"
| "find_result loads (line # rest) =
     (case loads line of
        None \<Rightarrow> find_result loads rest
      | Some data \<Rightarrow>
          (case py_get data ''type'' JNull of
             Inl e \<Rightarrow> Inl e
           | Inr t \<Rightarrow>
               if t = JStr ''result'' then py_get data ''result'' (JStr [])
               else find_result loads rest))"

text \<open>\<^verbatim>\<open>x + "\n"\<close>: only a string can be extended by a string.\<close>

definition add_newline :: "json \<Rightarrow> exn + string" where
  "add_newline x = (case x of JStr s \<Rightarrow> Inr (s @ ''\<newline>'') | _ \<Rightarrow> Inl TypeError)"

text \<open>
  \<^verbatim>\<open>final_text += s\<close> for a string \<open>s\<close>: a string grows by \<open>s\<close>, a list by the characters of
  \<open>s\<close>, anything else raises.
\<close>

definition append_text :: "json \<Rightarrow> string \<Rightarrow> exn + json" where
  "append_text acc s =
     (case acc of
        JStr a \<Rightarrow> Inr (JStr (a @ s))
      | JArr vs \<Rightarrow> Inr (JArr (vs @ map (\<lambda>c. JStr [c]) s))
      | _ \<Rightarrow> Inl TypeError)"

text \<open>
  \<^verbatim>\<open>
  for block in data.get("message", {}).get("content", []):
      if block.get("type") == "text":
          final_text += block.get("text", "") + "\n"
  \<close>
\<close>

fun add_text_blocks :: "json list \<Rightarrow> json \<Rightarrow> exn + json" where
  "add_text_blocks [] acc = Inr acc"
| "add_text_blocks (block # rest) acc =
     (case py_get block ''type'' JNull of
        Inl e \<Rightarrow> Inl e
      | Inr t \<Rightarrow>
          if t = JStr ''text'' then
            (case py_get block ''text'' (JStr []) of
               Inl e \<Rightarrow> Inl e
             | Inr x \<Rightarrow>
                 (case add_newline x of
                    Inl e \<Rightarrow> Inl e
                  | Inr s \<Rightarrow>
                      (case append_text acc s of
                         Inl e \<Rightarrow> Inl e
                       | Inr acc' \<Rightarrow> add_text_blocks rest acc')))
          else add_text_blocks rest acc)"

definition message_blocks :: "json \<Rightarrow> exn + json list" where
  "message_blocks data =
     (case py_get data ''message'' (JObj []) of
        Inl e \<Rightarrow> Inl e
      | Inr message \<Rightarrow>
          (case py_get message ''content'' (JArr []) of
             Inl e \<Rightarrow> Inl e
           | Inr content \<Rightarrow> py_iter content))"

text \<open>
  Second pass, run when the first left a falsy \<^verbatim>\<open>final_text\<close>:
  \<^verbatim>\<open>
  for line in output_lines:
      try:
          data = json.loads(line)
          if data.get("type") == "assistant":
              for block in ...
      except (json.JSONDecodeError, KeyError):
          pass
  \<close>
\<close>

fun collect_text :: "(string \<Rightarrow> json option) \<Rightarrow> string list \<Rightarrow> json \<Rightarrow> exn + json" where
  "collect_text loads [] acc = Inr acc"
| "collect_text loads (line # rest) acc =
     (case loads line of
        None \<Rightarrow> collect_text loads rest acc
      | Some data \<Rightarrow>
          (case py_get data ''type'' JNull of
             Inl e \<Rightarrow> Inl e
           | Inr t \<Rightarrow>
               if t = JStr ''assistant'' then
                 (case message_blocks data of
                    Inl e \<Rightarrow> Inl e
                  | Inr blocks \<Rightarrow>
                      (case add_text_blocks blocks acc of
                         Inl e \<Rightarrow> Inl e
                       | Inr acc' \<Rightarrow> collect_text loads rest acc'))
               else collect_text loads rest acc))"

text \<open>
  The three tiers together; the third is
  \<^verbatim>\<open>
  if not final_text:
      final_text = stderr_output or "(no output captured)"
  \<close>
\<close>

definition extract_final_text ::
    "(string \<Rightarrow> json option) \<Rightarrow> string list \<Rightarrow> string \<Rightarrow> exn + json" where
  "extract_final_text loads output_lines stderr_output =
     (case find_result loads output_lines of
        Inl e \<Rightarrow> Inl e
      | Inr first \<Rightarrow>
          (case (if \<not> truthy first then collect_text loads output_lines first else Inr first) of
             Inl e \<Rightarrow> Inl e
           | Inr second \<Rightarrow>
               Inr (if \<not> truthy second then
                      JStr (if stderr_output \<noteq> [] then stderr_output else ''(no output captured)'')
                    else second)))"

subsection \<open>The stream as the specification describes it\<close>

text \<open>A terminal-result event: a JSON object whose \<open>type\<close> is \<open>result\<close>.\<close>

definition is_result_event :: "json option \<Rightarrow> bool" where
  "is_result_event d =
     (case d of Some (JObj kvs) \<Rightarrow> map_of kvs ''type'' = Some (JStr ''result'') | _ \<Rightarrow> False)"

definition result_events :: "(string \<Rightarrow> json option) \<Rightarrow> string list \<Rightarrow> json list" where
  "result_events loads output_lines =
     concat (map (\<lambda>l. case loads l of
                          None \<Rightarrow> []
                        | Some d \<Rightarrow> if is_result_event (Some d) then [d] else [])
                 output_lines)"

text \<open>The result field of an event, \<open>JStr []\<close> when the event has none.\<close>

definition result_field :: "json \<Rightarrow> json" where
  "result_field d =
     (case d of
        JObj kvs \<Rightarrow> (case map_of kvs ''result'' of Some v \<Rightarrow> v | None \<Rightarrow> JStr [])
      | _ \<Rightarrow> JStr [])"

text \<open>
  A line that the first pass steps over: one that \<^verbatim>\<open>json.loads\<close> rejects with
  \<^verbatim>\<open>JSONDecodeError\<close>, or a JSON object that is not a terminal-result event.
\<close>

definition skipped_line :: "json option \<Rightarrow> bool" where
  "skipped_line d =
     (case d of
        None \<Rightarrow> True
      | Some (JObj kvs) \<Rightarrow> map_of kvs ''type'' \<noteq> Some (JStr ''result'')
      | Some _ \<Rightarrow> False)"

text \<open>
  The text fragments that an event carries, for the event shapes of the stream format: a
  line that \<^verbatim>\<open>json.loads\<close> rejects with \<^verbatim>\<open>JSONDecodeError\<close> and an object that is not an
  assistant turn carry none; an assistant
  turn carries the \<open>text\<close> of each content block of type \<open>text\<close>, in order. \<open>None\<close> marks any
  other shape.
\<close>

definition block_fragments :: "json \<Rightarrow> string list option" where
  "block_fragments block =
     (case block of
        JObj kvs \<Rightarrow>
          if map_of kvs ''type'' = Some (JStr ''text'') then
            (case map_of kvs ''text'' of
               None \<Rightarrow> Some [[]]
             | Some (JStr s) \<Rightarrow> Some [s]
             | Some _ \<Rightarrow> None)
          else Some []
      | _ \<Rightarrow> None)"

fun blocks_fragments :: "json list \<Rightarrow> string list option" where
  "blocks_fragments [] = Some []"
| "blocks_fragments (b # bs) =
     (case block_fragments b of
        None \<Rightarrow> None
      | Some fs \<Rightarrow> (case blocks_fragments bs of None \<Rightarrow> None | Some gs \<Rightarrow> Some (fs @ gs)))"

definition event_fragments :: "json option \<Rightarrow> string list option" where
  "event_fragments d =
     (case d of
        None \<Rightarrow> Some []
      | Some (JObj kvs) \<Rightarrow>
          if map_of kvs ''type'' = Some (JStr ''assistant'') then
            (case map_of kvs ''message'' of
               None \<Rightarrow> Some []
             | Some (JObj m) \<Rightarrow>
                 (case map_of m ''content'' of
                    None \<Rightarrow> Some []
                  | Some (JArr blocks) \<Rightarrow> blocks_fragments blocks
                  | Some _ \<Rightarrow> None)
             | Some _ \<Rightarrow> None)
          else Some []
      | Some _ \<Rightarrow> None)"


text \<open>Each fragment followed by a line break, in order.\<close>

definition fragment_lines :: "string list \<Rightarrow> string" where
  "fragment_lines fs = concat (map (\<lambda>f. f @ ''\<newline>'') fs)"

section \<open>Process supervisor\<close>

text \<open>The command-line arguments of a run.\<close>

record args =
  task :: string
  project :: string
  session :: "string option"
  output_file :: string
  timeout :: int
  resume :: "string option"
  session_label :: "string option"

text \<open>
  \<^verbatim>\<open>
  def extract_group_jid(session_key: str) -> str | None:
      if not session_key:
          return None
      for part in session_key.split(":"):
          if "@g.us" in part:
              return part
      return None
  \<close>
\<close>

definition extract_group_jid :: "string option \<Rightarrow> string option" where
  "extract_group_jid session_key =
     (case session_key of
        None \<Rightarrow> None
      | Some s \<Rightarrow>
          if s = [] then None else find (contains_str ''@g.us'') (split_on CHR '':'' s))"

text \<open>
  \<^verbatim>\<open>
  token = None
  try:
      token = get_token() if args.session else None
  except Exception:
      pass
  \<close>
  \<open>loaded\<close> is what \<^verbatim>\<open>get_token()\<close> would return, \<open>None\<close> when it raises.
\<close>

definition load_token :: "string option \<Rightarrow> json option \<Rightarrow> json" where
  "load_token session_key loaded =
     (if given session_key then (case loaded of Some t \<Rightarrow> t | None \<Rightarrow> JNull) else JNull)"

subsection \<open>What the run does to the outside\<close>

datatype liveness = Healthy | Degraded | Stalled

datatype token_text = TokenText string | TokenFloat real

datatype activity_part = ThinkingFor int | ThinkingPlain | ActivityText activity bool

text \<open>
  The parts of a heartbeat line. \<open>hb_elapsed\<close> is the elapsed time at which it was sent, the
  value that the loop stores in \<^verbatim>\<open>last_heartbeat\<close>.
\<close>

record heartbeat =
  hb_elapsed :: int
  hb_status :: liveness
  hb_mins :: int
  hb_tokens :: "token_text option"
  hb_calls :: "int option"
  hb_activity :: "activity_part option"

text \<open>
  The messages of the script, by what they announce: the interpolated values that a claim
  can depend on are kept, the wording is not.
\<close>

datatype message =
    LaunchMsg
  | HeartbeatMsg heartbeat
  | ResumeFailedMsg string
  | TimeoutMsg int string
  | CompleteMsg string
  | ErrorMsg int string
  | CrashMsg exn

datatype run_status = StatusTimeout | StatusOk | StatusError

text \<open>
  The calls that reach outside the process, in the order the run makes them:
  \<^verbatim>\<open>send_whatsapp\<close>, \<^verbatim>\<open>notify_session\<close>, \<^verbatim>\<open>proc.terminate()\<close>, \<^verbatim>\<open>proc.wait(timeout=n)\<close>,
  \<^verbatim>\<open>proc.kill()\<close>, \<^verbatim>\<open>Path(output_file).write_text(output)\<close>, the status line printed at the
  end, and \<^verbatim>\<open>register_session(session_id=..., status=...)\<close>.
\<close>

datatype action =
    SendWhatsApp message
  | NotifySession message
  | Terminate
  | WaitExit nat
  | Kill
  | WriteOutput string
  | PrintDone run_status int
  | RegisterSession json string

text \<open>
  \<^verbatim>\<open>
  def kill_process_graceful(proc, timeout_grace=10):
      try:
          proc.terminate()
          try:
              proc.wait(timeout=timeout_grace)
          except subprocess.TimeoutExpired:
              proc.kill()
              proc.wait(timeout=5)
      except Exception:
          pass
  \<close>
  \<open>exited\<close> tells whether the subprocess exits within the grace period.
\<close>

definition kill_process_graceful :: "bool \<Rightarrow> action list" where
  "kill_process_graceful exited =
     [Terminate, WaitExit 10] @ (if exited then [] else [Kill, WaitExit 5])"

subsection \<open>Heartbeat\<close>

text \<open>
  The status line of the main loop, from \<^verbatim>\<open>mins = elapsed // 60\<close> to the last
  \<^verbatim>\<open>parts.append\<close>; \<open>now\<close> is the clock reading of \<^verbatim>\<open>idle_secs = time.time() - ...\<close>.
\<close>

definition render_heartbeat :: "int \<Rightarrow> real \<Rightarrow> progress \<Rightarrow> heartbeat" where
  "render_heartbeat elapsed now st =
     (let idle_secs = now - last_event_time st
      in \<lparr>hb_elapsed = elapsed,
          hb_status =
            (if idle_secs < 30 then Healthy else if idle_secs < 120 then Degraded else Stalled),
          hb_mins = elapsed div 60,
          hb_tokens =
            (if num_positive (output_tokens st) then
               Some (case output_tokens st of
                       PInt n \<Rightarrow> TokenText (format_tokens n)
                     | PFloat x \<Rightarrow> TokenFloat x)
             else None),
          hb_calls = (if 0 < tool_calls st then Some (tool_calls st) else None),
          hb_activity =
            (if 120 < idle_secs then Some (ThinkingFor (py_int idle_secs))
             else if 15 < idle_secs \<and> chunks_since_heartbeat st = 0 then Some ThinkingPlain
             else if last_activity st \<noteq> NoActivity then
               Some (ActivityText (last_activity st) (0 < chunks_since_heartbeat st))
             else None)\<rparr>)"

subsection \<open>Main loop\<close>

text \<open>
  One iteration of \<^verbatim>\<open>while proc.poll() is None\<close>, that is, one poll that found the
  subprocess running: the lines that the reader thread takes in up to the end of the
  \<^verbatim>\<open>time.sleep(5)\<close>, the clock reading of \<^verbatim>\<open>elapsed = int(time.time() - start)\<close>, and the
  reading that a heartbeat would take.
\<close>

record tick =
  tick_lines :: "(string \<times> real) list"
  tick_now :: real
  tick_hb_now :: real

text \<open>The reader thread's exception, if it has died, the captured lines and the state.\<close>

type_synonym reading = "exn option \<times> string list \<times> progress"

definition read_more :: "(string \<Rightarrow> json option) \<Rightarrow> (string \<times> real) list \<Rightarrow> reading \<Rightarrow> reading" where
  "read_more loads ls rd =
     (case rd of
        (Some e, out, st) \<Rightarrow> (Some e, out, st)
      | (None, out, st) \<Rightarrow> reader loads ls (out, st))"

definition reset_chunks :: "reading \<Rightarrow> reading" where
  "reset_chunks rd =
     (case rd of (e, out, st) \<Rightarrow> (e, out, st\<lparr>chunks_since_heartbeat := 0\<rparr>))"

text \<open>
  \<^verbatim>\<open>
  while proc.poll() is None:
      time.sleep(5)
      elapsed = int(time.time() - start)
      if elapsed >= args.timeout:
          timed_out = True
          kill_process_graceful(proc)
          break
      if elapsed - last_heartbeat >= 60 and group_jid and token:
          last_heartbeat = elapsed
          ...
          state["chunks_since_heartbeat"] = 0
          send_whatsapp(token, group_jid, " | ".join(parts))
  \<close>
  The list holds the iterations of the loop: when it is used up, the next poll finds that
  the subprocess has exited. \<open>notify\<close> is \<^verbatim>\<open>group_jid and token\<close>. The result is
  \<^verbatim>\<open>timed_out\<close>, the calls made, and what the reader has taken in.
\<close>

fun main_loop ::
    "(string \<Rightarrow> json option) \<Rightarrow> int \<Rightarrow> bool \<Rightarrow> real \<Rightarrow> bool \<Rightarrow> tick list \<Rightarrow> int \<Rightarrow> reading \<Rightarrow>
     bool \<times> action list \<times> reading" where
  "main_loop loads limit notify start exited [] last_heartbeat rd = (False, [], rd)"
| "main_loop loads limit notify start exited (t # ts) last_heartbeat rd =
     (let rd1 = read_more loads (tick_lines t) rd;
          elapsed = py_int (tick_now t - start)
      in if limit \<le> elapsed then (True, kill_process_graceful exited, rd1)
         else if 60 \<le> elapsed - last_heartbeat \<and> notify then
           (case main_loop loads limit notify start exited ts elapsed (reset_chunks rd1) of
              (timed_out, acts, rd2) \<Rightarrow>
                (timed_out,
                 SendWhatsApp
                   (HeartbeatMsg (render_heartbeat elapsed (tick_hb_now t) (snd (snd rd1)))) # acts,
                 rd2))
         else main_loop loads limit notify start exited ts last_heartbeat rd1)"

subsection \<open>After the loop\<close>

text \<open>
  \<^verbatim>\<open>if args.resume and stderr_output and "No conversation found" in stderr_output\<close>
\<close>

definition resume_not_found :: "args \<Rightarrow> string \<Rightarrow> bool" where
  "resume_not_found a stderr_output \<longleftrightarrow>
     given (resume a) \<and> stderr_output \<noteq> [] \<and> contains_str ''No conversation found'' stderr_output"

text \<open>
  \<^verbatim>\<open>status = "TIMEOUT" if timed_out else ("ok" if exit_code == 0 else "error")\<close> (the script
  prints a glyph for each) and
  \<^verbatim>\<open>session_status = "timeout" if timed_out else ("completed" if exit_code == 0 else "failed")\<close>.
\<close>

definition run_status_of :: "bool \<Rightarrow> int \<Rightarrow> run_status" where
  "run_status_of timed_out exit_code =
     (if timed_out then StatusTimeout else if exit_code = 0 then StatusOk else StatusError)"

definition session_status :: "bool \<Rightarrow> int \<Rightarrow> string" where
  "session_status timed_out exit_code =
     (if timed_out then ''timeout'' else if exit_code = 0 then ''completed'' else ''failed'')"

definition final_message :: "bool \<Rightarrow> int \<Rightarrow> progress \<Rightarrow> string \<Rightarrow> message" where
  "final_message timed_out exit_code st output =
     (if timed_out then TimeoutMsg (tool_calls st) (take 2000 output)
      else if exit_code = 0 then CompleteMsg (take 2000 output)
      else ErrorMsg exit_code (take 2000 output))"

text \<open>
  From \<^verbatim>\<open>output = final_text\<close> to the last \<^verbatim>\<open>notify_session\<close>, for a final text that is a
  string:
  \<^verbatim>\<open>
  output = final_text
  Path(output_file).write_text(output)
  exit_code = proc.returncode if proc.returncode is not None else -1
  ...
  status = ...
  print(f"{status} Done (exit {exit_code}, ...)", file=sys.stderr)
  if state.get("session_id"):
      try:
          session_status = ...
          register_session(session_id=state["session_id"], ..., status=session_status)
      except Exception as e: ...
  if args.session and token:
      ...
      notify_session(token, args.session, group_jid, msg)
  \<close>
  \<^verbatim>\<open>write_text\<close> is the one call here that stands in no handler of its own: \<open>write_error\<close> is
  the exception it raises, \<open>None\<close> when the text is saved. When it raises, nothing of what
  follows it runs, and the exception is on its way to \<^verbatim>\<open>except Exception\<close>. \<open>WriteOutput\<close> records
  a text that has been saved.
\<close>

definition report ::
    "args \<Rightarrow> json \<Rightarrow> bool \<Rightarrow> int option \<Rightarrow> progress \<Rightarrow> exn option \<Rightarrow> string \<Rightarrow>
     exn + action list" where
  "report a token timed_out returncode st write_error output =
     (case write_error of
        Some e \<Rightarrow> Inl e
      | None \<Rightarrow>
          Inr (let exit_code = (case returncode of Some c \<Rightarrow> c | None \<Rightarrow> - 1)
               in [WriteOutput output, PrintDone (run_status_of timed_out exit_code) exit_code]
                  @ (if truthy (session_id st)
                     then [RegisterSession (session_id st) (session_status timed_out exit_code)]
                     else [])
                  @ (if given (session a) \<and> truthy token
                     then [NotifySession (final_message timed_out exit_code st output)]
                     else [])))"

text \<open>
  From the resume check to the end of the \<^verbatim>\<open>try\<close> block. \<open>Inl\<close> is an exception on its way
  to \<^verbatim>\<open>except Exception\<close>: one raised by the extraction, the \<^verbatim>\<open>TypeError\<close> of
  \<^verbatim>\<open>write_text\<close> on a final text that is not a string, or the exception of a \<^verbatim>\<open>write_text\<close>
  that cannot save the text. Each is raised before the status line is printed and before
  the registry and the session are reached.
\<close>

definition reconcile ::
    "(string \<Rightarrow> json option) \<Rightarrow> args \<Rightarrow> json \<Rightarrow> string option \<Rightarrow> bool \<Rightarrow> int option \<Rightarrow>
     string list \<Rightarrow> progress \<Rightarrow> string \<Rightarrow> exn option \<Rightarrow> exn + action list" where
  "reconcile loads a token group_jid timed_out returncode output_lines st stderr_output
       write_error =
     (if resume_not_found a stderr_output then
        Inr (if given (session a) \<and> truthy token \<and> given group_jid
             then [NotifySession (ResumeFailedMsg (case resume a of Some r \<Rightarrow> r | None \<Rightarrow> []))]
             else [])
      else
        (case extract_final_text loads output_lines stderr_output of
           Inl e \<Rightarrow> Inl e
         | Inr (JStr output) \<Rightarrow> report a token timed_out returncode st write_error output
         | Inr _ \<Rightarrow> Inl TypeError))"

text \<open>
  The handler \<^verbatim>\<open>except Exception as e\<close>, reached here only after the loop, when the
  subprocess has exited or has been killed, so that its \<^verbatim>\<open>kill_process_graceful\<close> does not
  run.
\<close>

definition crash_handler :: "args \<Rightarrow> json \<Rightarrow> string option \<Rightarrow> exn \<Rightarrow> action list" where
  "crash_handler a token group_jid e =
     (if given (session a) \<and> truthy token then [NotifySession (CrashMsg e)] else [])
     @ (if given group_jid \<and> truthy token \<and> \<not> given (session a)
        then [SendWhatsApp (CrashMsg e)] else [])"

subsection \<open>The run\<close>

text \<open>
  What the world outside contributes to a run: the token in the configuration file (\<open>None\<close>
  when reading it raises), the clock readings of \<^verbatim>\<open>state["last_event_time"]\<close>'s initial value
  and of \<^verbatim>\<open>start\<close>, the iterations of the main loop, whether the subprocess exits within the
  grace period once told to terminate, the lines that the reader takes in between the end of
  the loop and the end of \<^verbatim>\<open>read_thread.join(timeout=5)\<close>, the captured error stream,
  \<^verbatim>\<open>proc.returncode\<close>, and the exception that \<^verbatim>\<open>Path(output_file).write_text(output)\<close> raises
  (\<open>None\<close> when the output file can be written).
\<close>

record world =
  config_token :: "json option"
  init_time :: real
  start_time :: real
  ticks :: "tick list"
  exits_in_grace :: bool
  tail_lines :: "(string \<times> real) list"
  stderr_text :: string
  returncode :: "int option"
  write_error :: "exn option"

text \<open>\<^verbatim>\<open>group_jid and token\<close>, the guard of the launch notice and of every heartbeat.\<close>

definition can_notify :: "args \<Rightarrow> world \<Rightarrow> bool" where
  "can_notify a w \<longleftrightarrow>
     given (extract_group_jid (session a)) \<and> truthy (load_token (session a) (config_token w))"

text \<open>The main loop of a run: \<^verbatim>\<open>timed_out\<close>, the calls made, what the reader has taken in.\<close>

definition supervise ::
    "(string \<Rightarrow> json option) \<Rightarrow> args \<Rightarrow> world \<Rightarrow> bool \<times> action list \<times> reading" where
  "supervise loads a w =
     main_loop loads (timeout a) (can_notify a w) (start_time w) (exits_in_grace w) (ticks w) 0
       (None, [], init_state (init_time w))"

text \<open>
  The lines captured and the progress state when the result is extracted, after
  \<^verbatim>\<open>read_thread.join(timeout=5)\<close>.
\<close>

definition captured :: "(string \<Rightarrow> json option) \<Rightarrow> args \<Rightarrow> world \<Rightarrow> reading" where
  "captured loads a w = read_more loads (tail_lines w) (snd (snd (supervise loads a w)))"

text \<open>
  The run after the loop: \<^verbatim>\<open>reconcile\<close>, and the crash handler when an exception leaves it.
\<close>

definition conclude ::
    "(string \<Rightarrow> json option) \<Rightarrow> args \<Rightarrow> world \<Rightarrow> bool \<Rightarrow> reading \<Rightarrow> action list" where
  "conclude loads a w timed_out rd =
     (let group_jid = extract_group_jid (session a);
          token = load_token (session a) (config_token w)
      in case reconcile loads a token group_jid timed_out (returncode w)
                (fst (snd rd)) (snd (snd rd)) (stderr_text w) (write_error w) of
           Inr final \<Rightarrow> final
         | Inl x \<Rightarrow> crash_handler a token group_jid x)"

text \<open>
  \<^verbatim>\<open>main\<close> from the launch notice on, for a run whose set-up (PID file, \<^verbatim>\<open>git init\<close>,
  \<^verbatim>\<open>subprocess.Popen\<close>) succeeds.
\<close>

definition run :: "(string \<Rightarrow> json option) \<Rightarrow> args \<Rightarrow> world \<Rightarrow> action list" where
  "run loads a w =
     (if can_notify a w then [SendWhatsApp LaunchMsg] else [])
     @ fst (snd (supervise loads a w))
     @ conclude loads a w (fst (supervise loads a w)) (captured loads a w)"

subsection \<open>Reading a run\<close>

text \<open>
  Whether the loop of a run reaches the timeout check with the limit used up: some poll finds
  the subprocess running and the elapsed time at or past the limit.
\<close>

definition reaches_timeout :: "args \<Rightarrow> world \<Rightarrow> bool" where
  "reaches_timeout a w \<longleftrightarrow>
     (\<exists>t \<in> set (ticks w). timeout a \<le> py_int (tick_now t - start_time w))"

text \<open>The elapsed time that each poll of the loop reads.\<close>

definition poll_times :: "world \<Rightarrow> int list" where
  "poll_times w = map (\<lambda>t. py_int (tick_now t - start_time w)) (ticks w)"

fun is_heartbeat :: "action \<Rightarrow> bool" where
  "is_heartbeat (SendWhatsApp (HeartbeatMsg h)) = True"
| "is_heartbeat x = False"

fun is_whatsapp :: "action \<Rightarrow> bool" where
  "is_whatsapp (SendWhatsApp m) = True"
| "is_whatsapp x = False"

text \<open>The elapsed times at which the heartbeats of a run are sent.\<close>

fun heartbeat_time :: "action \<Rightarrow> int list" where
  "heartbeat_time (SendWhatsApp (HeartbeatMsg h)) = [hb_elapsed h]"
| "heartbeat_time x = []"

definition heartbeat_times :: "action list \<Rightarrow> int list" where
  "heartbeat_times acts = concat (map heartbeat_time acts)"

text \<open>
  The cadence of the loop on the elapsed times of its polls alone: the times at which a
  heartbeat is due, up to the poll that finds the limit used up.
\<close>

fun heartbeat_schedule :: "int \<Rightarrow> int \<Rightarrow> int list \<Rightarrow> int list" where
  "heartbeat_schedule limit last_heartbeat [] = []"
| "heartbeat_schedule limit last_heartbeat (elapsed # rest) =
     (if limit \<le> elapsed then []
      else if 60 \<le> elapsed - last_heartbeat then elapsed # heartbeat_schedule limit elapsed rest
      else heartbeat_schedule limit last_heartbeat rest)"

fun is_resume_notice :: "action \<Rightarrow> bool" where
  "is_resume_notice (NotifySession (ResumeFailedMsg r)) = True"
| "is_resume_notice (SendWhatsApp (ResumeFailedMsg r)) = True"
| "is_resume_notice x = False"

fun is_registry_write :: "action \<Rightarrow> bool" where
  "is_registry_write (RegisterSession sid status) = True"
| "is_registry_write x = False"

text \<open>The calls of the normal end of a run: the text saved and the status line printed.\<close>

fun is_report :: "action \<Rightarrow> bool" where
  "is_report (WriteOutput text) = True"
| "is_report (PrintDone status code) = True"
| "is_report x = False"

text \<open>
  What a run does apart from sending messages: the signals to the subprocess, the text
  saved, the status line, the registry entry.
\<close>

fun is_deed :: "action \<Rightarrow> bool" where
  "is_deed (SendWhatsApp m) = False"
| "is_deed (NotifySession m) = False"
| "is_deed x = True"

text \<open>Two states, or two readings, that differ at most in the count of content increments.\<close>

definition alike :: "progress \<Rightarrow> progress \<Rightarrow> bool" where
  "alike st st' \<longleftrightarrow> st\<lparr>chunks_since_heartbeat := 0\<rparr> = st'\<lparr>chunks_since_heartbeat := 0\<rparr>"

definition alike_reading :: "reading \<Rightarrow> reading \<Rightarrow> bool" where
  "alike_reading rd rd' \<longleftrightarrow>
     fst rd = fst rd' \<and> fst (snd rd) = fst (snd rd') \<and> alike (snd (snd rd)) (snd (snd rd'))"

text \<open>An effect that neither reads nor loses the count of content increments.\<close>

definition blind :: "effect \<Rightarrow> bool" where
  "blind f \<longleftrightarrow>
     (\<forall>st st'. alike st st' \<longrightarrow> fst (f st) = fst (f st') \<and> alike (snd (f st)) (snd (f st')))"

section \<open>Notions used to state the properties\<close>

text \<open>
  Every \<open>output_tokens\<close> field of a JSON value, at any depth, holds a non-negative integer.
\<close>

fun tokens_ok :: "json \<Rightarrow> bool" where
  "tokens_ok (JArr vs) = (\<forall>v \<in> set vs. tokens_ok v)"
| "tokens_ok (JObj kvs) =
     ((case map_of kvs ''output_tokens'' of
         None \<Rightarrow> True
       | Some (JInt n) \<Rightarrow> 0 \<le> n
       | Some _ \<Rightarrow> False)
      \<and> (\<forall>v \<in> snd ` set kvs. tokens_ok v))"
| "tokens_ok v = True"

definition line_tokens_ok :: "(string \<Rightarrow> json option) \<Rightarrow> string \<Rightarrow> bool" where
  "line_tokens_ok loads line = (case loads line of None \<Rightarrow> True | Some d \<Rightarrow> tokens_ok d)"

text \<open>An effect never takes the state out of the relation \<open>R\<close> to the state it starts from.\<close>

definition keeps :: "(progress \<Rightarrow> progress \<Rightarrow> bool) \<Rightarrow> effect \<Rightarrow> bool" where
  "keeps R f \<longleftrightarrow> (\<forall>st. R st (snd (f st)))"

definition calls_grow :: "progress \<Rightarrow> progress \<Rightarrow> bool" where
  "calls_grow st st' \<longleftrightarrow> tool_calls st \<le> tool_calls st'"

definition tokens_grow :: "progress \<Rightarrow> progress \<Rightarrow> bool" where
  "tokens_grow st st' \<longleftrightarrow>
     (\<forall>a. output_tokens st = PInt a \<longrightarrow> (\<exists>b. a \<le> b \<and> output_tokens st' = PInt b))"

definition time_moves :: "real \<Rightarrow> progress \<Rightarrow> progress \<Rightarrow> bool" where
  "time_moves now st st' \<longleftrightarrow>
     last_event_time st \<le> now \<longrightarrow>
       last_event_time st \<le> last_event_time st' \<and> last_event_time st' \<le> now"

text \<open>The progress state once the reader thread has worked through the given lines.\<close>

definition state_after ::
    "(string \<Rightarrow> json option) \<Rightarrow> (string \<times> real) list \<Rightarrow> progress \<Rightarrow> progress" where
  "state_after loads evs st = snd (snd (reader loads evs ([], st)))"

subsection \<open>Sample lines\<close>

text \<open>
  Lines of a stream, each with the value that \<^verbatim>\<open>json.loads\<close> returns for it; \<open>sample_loads\<close>
  is \<^verbatim>\<open>json.loads\<close> on these lines and on \<open>line_garbage\<close>, which it rejects with
  \<^verbatim>\<open>JSONDecodeError\<close>.
\<close>

definition line_list :: string where
  \<open>line_list = ''[]''\<close>

definition line_garbage :: string where
  \<open>line_garbage = ''Warning: not JSON''\<close>

definition line_negative_usage :: string where
  \<open>line_negative_usage = ''{"type":"assistant","message":{"usage":{"output_tokens":-5}}}''\<close>

definition line_init :: string where
  \<open>line_init = ''{"type":"system","subtype":"init","session_id":"s-1"}''\<close>

definition line_tool :: string where
  \<open>line_tool =
     ''{"type":"assistant","message":{"usage":{"output_tokens":7},"content":[{"type":"tool_use","name":"Bash","input":{"command":"ls"}}]}}''\<close>

definition line_hello :: string where
  \<open>line_hello = ''{"type":"assistant","message":{"content":[{"type":"text","text":"Hello "}]}}''\<close>

definition line_world :: string where
  \<open>line_world = ''{"type":"assistant","message":{"content":[{"type":"text","text":"world"}]}}''\<close>

definition line_first :: string where
  \<open>line_first = ''{"type":"result","result":"first"}''\<close>

definition line_last :: string where
  \<open>line_last = ''{"type":"result","result":"last"}''\<close>

definition line_empty_result :: string where
  \<open>line_empty_result = ''{"type":"result","result":""}''\<close>

definition sample_table :: "(string \<times> json) list" where
  "sample_table =
     [(line_list, JArr []),
      (line_negative_usage,
         JObj [(''type'', JStr ''assistant''),
               (''message'', JObj [(''usage'', JObj [(''output_tokens'', JInt (- 5))])])]),
      (line_init,
         JObj [(''type'', JStr ''system''), (''subtype'', JStr ''init''),
               (''session_id'', JStr ''s-1'')]),
      (line_tool,
         JObj [(''type'', JStr ''assistant''),
               (''message'',
                  JObj [(''usage'', JObj [(''output_tokens'', JInt 7)]),
                        (''content'',
                           JArr [JObj [(''type'', JStr ''tool_use''), (''name'', JStr ''Bash''),
                                       (''input'', JObj [(''command'', JStr ''ls'')])]])])]),
      (line_hello,
         JObj [(''type'', JStr ''assistant''),
               (''message'',
                  JObj [(''content'',
                           JArr [JObj [(''type'', JStr ''text''), (''text'', JStr ''Hello '')]])])]),
      (line_world,
         JObj [(''type'', JStr ''assistant''),
               (''message'',
                  JObj [(''content'',
                           JArr [JObj [(''type'', JStr ''text''), (''text'', JStr ''world'')]])])]),
      (line_first, JObj [(''type'', JStr ''result''), (''result'', JStr ''first'')]),
      (line_last, JObj [(''type'', JStr ''result''), (''result'', JStr ''last'')]),
      (line_empty_result, JObj [(''type'', JStr ''result''), (''result'', JStr [])])]"

definition sample_loads :: "string \<Rightarrow> json option" where
  "sample_loads = map_of sample_table"

subsection \<open>Sample runs\<close>

text \<open>
  Polls of an undisturbed loop: the \<open>k\<close>-th poll reads the clock \<open>5 * k\<close> seconds after a
  start at 0, and the reader takes in nothing meanwhile.
\<close>

definition steady_ticks :: "nat \<Rightarrow> tick list" where
  "steady_ticks n =
     map (\<lambda>k. \<lparr>tick_lines = [], tick_now = of_int (5 * int k), tick_hb_now = of_int (5 * int k)\<rparr>)
       [1..<Suc n]"

text \<open>A run with a session key that names a WhatsApp group, and a run without a session key.\<close>

definition group_args :: args where
  "group_args =
     \<lparr>task = ''Build X'', project = ''/tmp/cc-scratch'',
      session = Some ''agent:main:whatsapp:group:120363@g.us'', output_file = ''/tmp/cc-out.txt'',
      timeout = 7200, resume = None, session_label = None\<rparr>"

definition plain_args :: args where
  "plain_args = group_args\<lparr>session := None\<rparr>"

text \<open>
  A subprocess that is found running at one poll, five seconds after the start, and whose
  init event the reader takes in before it is joined.
\<close>

definition short_world :: world where
  "short_world =
     \<lparr>config_token = Some (JStr ''secret''), init_time = 0, start_time = 0,
      ticks = steady_ticks 1, exits_in_grace = False, tail_lines = [(line_init, 6)],
      stderr_text = [], returncode = Some (- 9), write_error = None\<rparr>"

text \<open>A subprocess that is found running at 37 polls, up to 185 seconds after the start.\<close>

definition long_world :: world where
  "long_world = short_world\<lparr>ticks := steady_ticks 37, returncode := Some 0\<rparr>"

definition not_found_text :: string where
  "not_found_text = ''No conversation found with session ID: old-session''"

section \<open>Properties of the token formatter\<close>

lemma round_half_even_near:
  assumes "0 < b"
  shows "\<bar>2 * (b * round_half_even a b - a)\<bar> \<le> b"
proof -
  define q r where "q = a div b" and "r = a mod b"
  have a: "a = b * q + r"
    by (simp add: q_def r_def)
  have r: "0 \<le> r" "r < b"
    using assms by (simp_all add: r_def)
  have "b * (q + 1) = b * q + b"
    by (simp add: algebra_simps)
  then show ?thesis
    unfolding round_half_even_def Let_def q_def[symmetric] r_def[symmetric]
    using a r by auto
qed

lemma ilog2_below_16: "n < 16 \<Longrightarrow> ilog2 n \<le> 3"
  by (simp add: ilog2.simps)

lemma two_roundings_near:
  fixes P k m n :: int
  assumes P: "1000 \<le> P"
    and m: "\<bar>2 * (1000 * m - n * P)\<bar> \<le> 1000"
    and k: "\<bar>2 * (P * k - 10 * m)\<bar> \<le> P"
  shows "\<bar>100 * k - n\<bar> \<le> 50"
proof (rule ccontr)
  assume "\<not> \<bar>100 * k - n\<bar> \<le> 50"
  then have far: "51 \<le> \<bar>100 * k - n\<bar>"
    by simp
  define u v where "u = 100 * (P * k) - 1000 * m" and "v = 1000 * m - n * P"
  have v: "\<bar>v\<bar> \<le> 500"
    using m by (simp add: v_def)
  have u: "\<bar>u\<bar> \<le> 50 * P"
    using k by (simp add: u_def)
  have "51 * P \<le> \<bar>100 * k - n\<bar> * P"
    using far P by (intro mult_right_mono) auto
  also have "\<dots> = \<bar>(100 * k - n) * P\<bar>"
    using P by (simp add: abs_mult)
  also have "(100 * k - n) * P = u + v"
    by (simp add: u_def v_def algebra_simps)
  also have "\<bar>u + v\<bar> \<le> \<bar>u\<bar> + \<bar>v\<bar>"
    by (rule abs_triangle_ineq)
  also have "\<dots> \<le> 50 * P + 500"
    using u v by simp
  finally show False
    using P by simp
qed

lemma format_tokens_thousands:
  assumes "1000 \<le> n" "n < 10000"
  shows "\<exists>k. \<bar>100 * k - n\<bar> \<le> 50 \<and>
     format_tokens n = py_str_int (k div 10) @ ''.'' @ py_str_int (k mod 10) @ ''K''"
proof -
  define s where "s = 52 - ilog2 (nat (n div 1000))"
  define m where "m = round_half_even (n * 2 ^ s) 1000"
  define k where "k = round_half_even (10 * m) (2 ^ s)"
  have "nat (n div 1000) < 16"
    using assms by simp
  then have "ilog2 (nat (n div 1000)) \<le> 3"
    by (rule ilog2_below_16)
  then have s: "49 \<le> s"
    by (simp add: s_def)
  have "(2::int) ^ 49 \<le> 2 ^ s"
    using s by (intro power_increasing) auto
  then have P: "(1000::int) \<le> 2 ^ s"
    by simp
  have hm: "\<bar>2 * (1000 * m - n * 2 ^ s)\<bar> \<le> 1000"
    unfolding m_def by (rule round_half_even_near) simp
  have hk: "\<bar>2 * (2 ^ s * k - 10 * m)\<bar> \<le> 2 ^ s"
    unfolding k_def by (rule round_half_even_near) simp
  have near: "\<bar>100 * k - n\<bar> \<le> 50"
    by (rule two_roundings_near [OF P hm hk])
  have "format_tokens n = py_str_int (k div 10) @ ''.'' @ py_str_int (k mod 10) @ ''K''"
    using assms
    by (simp add: format_tokens_def fmt_1f_def truediv_def Let_def k_def m_def s_def)
  with near show ?thesis
    by blast
qed

lemma format_tokens_examples:
  "format_tokens 0 = ''0''" "format_tokens 999 = ''999''"
  "format_tokens 1500 = ''1.5K''" "format_tokens 12345 = ''12K''"
  by (simp_all add: format_tokens_def py_str_int_def str_nat.simps fmt_1f_def truediv_def
      ilog2.simps round_half_even_def Let_def)

text \<open>
  Claim C8. The token-count formatter maps 0 to "0", 999 to "999", 1500 to "1.5K" and 12345 to
  "12K". For every non-negative count \<open>n\<close>: below 1000 the text is the decimal numeral of
  \<open>n\<close>; from 1000 and below 10000 it is a number of tenths \<open>k\<close> written with one decimal place
  and followed by "K", where \<open>k / 10\<close> is \<open>n / 1000\<close> rounded to the nearest tenth; from 10000
  on it is the numeral of \<open>n\<close> divided by 1000, truncated, followed by "K".
\<close>

theorem format_tokens_rendering:
  assumes "0 \<le> n"
  shows "format_tokens 0 = ''0'' \<and> format_tokens 999 = ''999'' \<and>
    format_tokens 1500 = ''1.5K'' \<and> format_tokens 12345 = ''12K'' \<and>
    (n < 1000 \<longrightarrow> format_tokens n = py_str_int n) \<and>
    (1000 \<le> n \<and> n < 10000 \<longrightarrow>
       (\<exists>k. \<bar>100 * k - n\<bar> \<le> 50 \<and>
          format_tokens n = py_str_int (k div 10) @ ''.'' @ py_str_int (k mod 10) @ ''K'')) \<and>
    (10000 \<le> n \<longrightarrow> format_tokens n = py_str_int (n div 1000) @ ''K'')"
proof -
  have "n < 1000 \<longrightarrow> format_tokens n = py_str_int n"
    by (simp add: format_tokens_def)
  moreover have "10000 \<le> n \<longrightarrow> format_tokens n = py_str_int (n div 1000) @ ''K''"
    by (simp add: format_tokens_def)
  ultimately show ?thesis
    using format_tokens_thousands [of n] format_tokens_examples by blast
qed

theorem format_tokens_rendering_witness:
  "(0::int) \<le> 2750 \<and> (1000::int) \<le> 2750 \<and> (2750::int) < 10000 \<and>
   format_tokens 2750 = ''2.8K'' \<and>
   (\<exists>k. \<bar>100 * k - 2750\<bar> \<le> 50 \<and>
      format_tokens 2750 = py_str_int (k div 10) @ ''.'' @ py_str_int (k mod 10) @ ''K'')"
proof -
  have "format_tokens 2750 = ''2.8K''"
    by (simp add: format_tokens_def py_str_int_def str_nat.simps fmt_1f_def truediv_def
        ilog2.simps round_half_even_def Let_def)
  then show ?thesis
    using format_tokens_rendering [of 2750] by simp
qed

section \<open>Properties of the event parser\<close>

subsection \<open>Relations that every effect keeps\<close>

lemma keeps_pass: "reflp R \<Longrightarrow> keeps R pass"
  by (simp add: keeps_def pass_def reflp_def)

lemma keeps_raise: "reflp R \<Longrightarrow> keeps R (raise e)"
  by (simp add: keeps_def raise_def reflp_def)

lemma keeps_compute:
  "reflp R \<Longrightarrow> (\<And>v. x = Inr v \<Longrightarrow> keeps R (f v)) \<Longrightarrow> keeps R (compute x f)"
  by (cases x) (simp_all add: compute_def keeps_raise)

lemma keeps_and_then:
  assumes "transp R" "keeps R f" "keeps R g"
  shows "keeps R (and_then f g)"
proof -
  have "R st (snd (and_then f g st))" for st
  proof (cases "f st")
    case (Pair r st')
    have a: "R st st'" using assms(2) Pair by (metis keeps_def snd_conv)
    show ?thesis
    proof (cases r)
      case None
      have "R st' (snd (g st'))" using assms(3) by (simp add: keeps_def)
      with a have "R st (snd (g st'))" using assms(1) by (meson transpE)
      then show ?thesis using Pair None by (simp add: and_then_def)
    next
      case (Some e)
      then show ?thesis using Pair a by (simp add: and_then_def)
    qed
  qed
  then show ?thesis by (simp add: keeps_def)
qed

lemma keeps_if: "keeps R f \<Longrightarrow> keeps R g \<Longrightarrow> keeps R (if c then f else g)"
  by simp

lemma calls_grow_order: "reflp calls_grow" "transp calls_grow"
  by (auto simp: calls_grow_def reflp_def transp_def)

lemma tokens_grow_order: "reflp tokens_grow" "transp tokens_grow"
  by (auto simp: tokens_grow_def reflp_def transp_def)

lemma time_moves_order: "reflp (time_moves now)" "transp (time_moves now)"
  by (auto simp: time_moves_def reflp_def transp_def)

lemma keeps_case_prod: "(\<And>a b. keeps R (f a b)) \<Longrightarrow> keeps R (case p of (a, b) \<Rightarrow> f a b)"
  by (cases p) simp

subsection \<open>The tool-invocation count\<close>

lemmas calls_prims = set_activity_def count_chunk_def count_tool_call_def add_tokens_def
  store_session_id_def record_edit_def touch_def

lemma calls_set_activity: "keeps calls_grow (set_activity a)"
  and calls_count_chunk: "keeps calls_grow count_chunk"
  and calls_count_tool_call: "keeps calls_grow count_tool_call"
  and calls_add_tokens: "keeps calls_grow (add_tokens v)"
  and calls_store_session_id: "keeps calls_grow (store_session_id sid)"
  and calls_record_edit: "keeps calls_grow (record_edit name base)"
  and calls_touch: "keeps calls_grow (touch now)"
  by (auto simp: keeps_def calls_grow_def calls_prims split: sum.splits)

lemmas calls_intros = keeps_pass [OF calls_grow_order(1)] keeps_raise [OF calls_grow_order(1)]
  keeps_compute [OF calls_grow_order(1)] keeps_and_then [OF calls_grow_order(2)]
  calls_set_activity calls_count_chunk calls_count_tool_call calls_add_tokens
  calls_store_session_id calls_record_edit calls_touch

lemma calls_add_usage: "keeps calls_grow (add_usage usage)"
  unfolding add_usage_def by (intro calls_intros keeps_if)

lemma calls_capture: "keeps calls_grow (capture_session_id data t)"
  unfolding capture_session_id_def by (intro calls_intros keeps_if)

lemma calls_content: "keeps calls_grow (content_block_events inner t)"
  unfolding content_block_events_def by (intro calls_intros keeps_if calls_add_usage)

lemma calls_classify: "keeps calls_grow (classify_tool name lname inp)"
  unfolding classify_tool_def by (intro calls_intros keeps_if)

lemma calls_block: "keeps calls_grow (tool_use_block b)"
  unfolding tool_use_block_def by (intro calls_intros keeps_if calls_classify)

lemma calls_blocks: "keeps calls_grow (for_blocks bs)"
  by (induction bs) (simp_all add: calls_intros calls_block)

lemma calls_turn: "keeps calls_grow (assistant_turn data)"
  unfolding assistant_turn_def by (intro calls_intros keeps_if calls_add_usage calls_blocks)

lemma calls_assistant: "keeps calls_grow (assistant_or_result data t)"
  unfolding assistant_or_result_def by (intro calls_intros keeps_if calls_turn)

lemma calls_parse_event: "keeps calls_grow (parse_event data now)"
  unfolding parse_event_def
  by (intro calls_intros keeps_if calls_capture calls_content calls_assistant)

lemma parse_stream_line_snd:
  "snd (parse_stream_line loads line now st) =
     (case loads line of None \<Rightarrow> st | Some data \<Rightarrow> snd (parse_event data now st))"
  by (simp add: parse_stream_line_def split: option.splits prod.splits)

lemma keeps_parse_stream_line:
  assumes "reflp R" "\<And>data. loads line = Some data \<Longrightarrow> keeps R (parse_event data now)"
  shows "R st (snd (parse_stream_line loads line now st))"
proof (cases "loads line")
  case None
  then show ?thesis using assms(1) by (simp add: parse_stream_line_snd reflp_def)
next
  case (Some data)
  then show ?thesis using assms(2) [OF Some] by (simp add: parse_stream_line_snd keeps_def)
qed

lemma parse_stream_line_calls:
  "tool_calls st \<le> tool_calls (snd (parse_stream_line loads line now st))"
  using keeps_parse_stream_line [of calls_grow loads line now st]
  by (simp add: calls_grow_order calls_parse_event calls_grow_def)

subsection \<open>The timestamp of the last event\<close>

lemma time_prims: "keeps (time_moves now) (set_activity a)"
  "keeps (time_moves now) count_chunk"
  "keeps (time_moves now) count_tool_call"
  "keeps (time_moves now) (add_tokens v)"
  "keeps (time_moves now) (store_session_id sid)"
  "keeps (time_moves now) (record_edit name base)"
  "keeps (time_moves now) (touch now)"
  by (auto simp: keeps_def time_moves_def calls_prims split: sum.splits)

lemmas time_intros = keeps_pass [OF time_moves_order(1)] keeps_raise [OF time_moves_order(1)]
  keeps_compute [OF time_moves_order(1)] keeps_and_then [OF time_moves_order(2)]
  time_prims keeps_if

lemma time_add_usage: "keeps (time_moves now) (add_usage usage)"
  unfolding add_usage_def by (intro time_intros)

lemma time_capture: "keeps (time_moves now) (capture_session_id data t)"
  unfolding capture_session_id_def by (intro time_intros)

lemma time_content: "keeps (time_moves now) (content_block_events inner t)"
  unfolding content_block_events_def by (intro time_intros time_add_usage)

lemma time_classify: "keeps (time_moves now) (classify_tool name lname inp)"
  unfolding classify_tool_def by (intro time_intros)

lemma time_block: "keeps (time_moves now) (tool_use_block b)"
  unfolding tool_use_block_def by (intro time_intros time_classify)

lemma time_blocks: "keeps (time_moves now) (for_blocks bs)"
  by (induction bs) (simp_all add: time_intros time_block)

lemma time_turn: "keeps (time_moves now) (assistant_turn data)"
  unfolding assistant_turn_def by (intro time_intros time_add_usage time_blocks)

lemma time_assistant: "keeps (time_moves now) (assistant_or_result data t)"
  unfolding assistant_or_result_def by (intro time_intros time_turn)

lemma time_parse_event: "keeps (time_moves now) (parse_event data now)"
  unfolding parse_event_def
  by (intro time_intros time_capture time_content time_assistant)

lemma parse_stream_line_time:
  assumes "last_event_time st \<le> now"
  shows "last_event_time st \<le> last_event_time (snd (parse_stream_line loads line now st))"
    and "last_event_time (snd (parse_stream_line loads line now st)) \<le> now"
  using keeps_parse_stream_line [of "time_moves now" loads line now st] assms
  by (simp_all add: time_moves_order time_parse_event time_moves_def)

subsection \<open>The output-token count\<close>

lemma tokens_ok_get:
  "tokens_ok x \<Longrightarrow> tokens_ok d \<Longrightarrow> py_get x k d = Inr v \<Longrightarrow> tokens_ok v"
  by (cases x) (auto simp: py_get_def split: option.splits dest!: map_of_SomeD)

lemma tokens_ok_item: "tokens_ok x \<Longrightarrow> py_item x k = Inr v \<Longrightarrow> tokens_ok v"
  by (cases x) (auto simp: py_item_def split: option.splits dest!: map_of_SomeD)

lemma tokens_ok_iter: "tokens_ok x \<Longrightarrow> py_iter x = Inr vs \<Longrightarrow> \<forall>v \<in> set vs. tokens_ok v"
  by (cases x) (auto simp: py_iter_def)

lemma tokens_prims: "keeps tokens_grow (set_activity a)"
  "keeps tokens_grow count_chunk"
  "keeps tokens_grow count_tool_call"
  "keeps tokens_grow (store_session_id sid)"
  "keeps tokens_grow (record_edit name base)"
  "keeps tokens_grow (touch now)"
  by (auto simp: keeps_def tokens_grow_def calls_prims split: sum.splits)

lemmas tokens_intros = keeps_pass [OF tokens_grow_order(1)] keeps_raise [OF tokens_grow_order(1)]
  keeps_compute [OF tokens_grow_order(1)] keeps_and_then [OF tokens_grow_order(2)]
  tokens_prims keeps_if

lemma tokens_add_usage:
  assumes "tokens_ok usage"
  shows "keeps tokens_grow (add_usage usage)"
proof (cases usage)
  case (JObj kvs)
  show ?thesis
  proof (cases "map_of kvs ''output_tokens''")
    case None
    then show ?thesis using JObj
      by (simp add: add_usage_def py_in_def compute_def tokens_intros)
  next
    case (Some v)
    then obtain n where v: "v = JInt n" "0 \<le> n"
      using assms JObj by (cases v) auto
    have "keeps tokens_grow (add_tokens (JInt n))"
      using v(2) by (auto simp: keeps_def tokens_grow_def add_tokens_def)
    then show ?thesis using JObj Some v
      by (simp add: add_usage_def py_in_def py_item_def compute_def)
  qed
qed (auto simp: add_usage_def py_in_def py_item_def compute_def tokens_intros)

lemma tokens_capture: "keeps tokens_grow (capture_session_id data t)"
  unfolding capture_session_id_def by (intro tokens_intros)

lemma tokens_content:
  assumes "tokens_ok inner"
  shows "keeps tokens_grow (content_block_events inner t)"
proof -
  have "tokens_ok usage" if "py_get inner ''usage'' (JObj []) = Inr usage" for usage
    using tokens_ok_get [of inner "JObj []" "''usage''" usage] assms that by simp
  then show ?thesis
    unfolding content_block_events_def by (intro tokens_intros tokens_add_usage)
qed

lemma tokens_classify: "keeps tokens_grow (classify_tool name lname inp)"
  unfolding classify_tool_def by (intro tokens_intros)

lemma tokens_block: "keeps tokens_grow (tool_use_block b)"
  unfolding tool_use_block_def by (intro tokens_intros tokens_classify)

lemma tokens_blocks: "keeps tokens_grow (for_blocks bs)"
  by (induction bs) (simp_all add: tokens_intros tokens_block)

lemma tokens_turn:
  assumes "tokens_ok data"
  shows "keeps tokens_grow (assistant_turn data)"
  unfolding assistant_turn_def
proof (intro tokens_intros tokens_blocks tokens_add_usage)
  fix message usage
  assume "py_get data ''message'' (JObj []) = Inr message"
  then have "tokens_ok message"
    using tokens_ok_get [of data "JObj []" "''message''" message] assms by simp
  moreover assume "py_get message ''usage'' (JObj []) = Inr usage"
  ultimately show "tokens_ok usage"
    using tokens_ok_get [of message "JObj []" "''usage''" usage] by simp
qed

lemma tokens_assistant:
  "tokens_ok data \<Longrightarrow> keeps tokens_grow (assistant_or_result data t)"
  unfolding assistant_or_result_def by (intro tokens_intros tokens_turn)

lemma tokens_ok_unwrap:
  assumes "tokens_ok data" "unwrap_envelope data t = Inr env"
  shows "tokens_ok (fst env)"
proof (cases "t = JStr ''stream_event''")
  case True
  then obtain inner where "py_get data ''event'' (JObj []) = Inr inner" "fst env = inner"
    using assms(2) by (auto simp: unwrap_envelope_def split: sum.splits)
  then show ?thesis
    using assms(1) tokens_ok_get [of data "JObj []" "''event''" inner] by simp
next
  case False
  then show ?thesis using assms by (auto simp: unwrap_envelope_def)
qed

lemma tokens_parse_event:
  assumes "tokens_ok data"
  shows "keeps tokens_grow (parse_event data now)"
proof -
  have "keeps tokens_grow (content_block_events (fst env) (snd env))"
    if "unwrap_envelope data t = Inr env" for t env
    using tokens_ok_unwrap [of data t env] assms that by (simp add: tokens_content)
  then show ?thesis
    unfolding parse_event_def
    by (intro tokens_intros tokens_capture tokens_assistant assms)
qed

lemma parse_stream_line_tokens:
  assumes "line_tokens_ok loads line" "output_tokens st = PInt a"
  shows "\<exists>b. a \<le> b \<and> output_tokens (snd (parse_stream_line loads line now st)) = PInt b"
proof -
  have "keeps tokens_grow (parse_event data now)" if "loads line = Some data" for data
    using assms(1) that by (simp add: line_tokens_ok_def tokens_parse_event)
  then have "tokens_grow st (snd (parse_stream_line loads line now st))"
    using keeps_parse_stream_line [of tokens_grow loads line now st]
    by (simp add: tokens_grow_order)
  then show ?thesis using assms(2) by (simp add: tokens_grow_def)
qed

subsection \<open>The reader thread\<close>

lemma reader_keeps:
  assumes "reflp R" "transp R"
    and "\<And>raw now st. (raw, now) \<in> set evs \<Longrightarrow>
           R st (snd (parse_stream_line loads (py_strip raw) now st))"
  shows "R st (snd (snd (reader loads evs (out, st))))"
  using assms(3)
proof (induction evs arbitrary: out st)
  case Nil
  then show ?case using assms(1) by (simp add: reflp_def)
next
  case (Cons ev evs)
  obtain raw now where ev: "ev = (raw, now)" by (cases ev)
  let ?line = "py_strip raw"
  show ?case
  proof (cases "?line = []")
    case True
    then show ?thesis using Cons ev by simp
  next
    case False
    obtain r st' where p: "parse_stream_line loads ?line now st = (r, st')"
      by (cases "parse_stream_line loads ?line now st")
    have step: "R st st'"
      using Cons.prems [of raw now st] ev p by simp
    show ?thesis
    proof (cases r)
      case None
      have "R st' (snd (snd (reader loads evs (out @ [?line], st'))))"
        using Cons.prems by (intro Cons.IH) simp
      with step have "R st (snd (snd (reader loads evs (out @ [?line], st'))))"
        using assms(2) by (meson transpE)
      then show ?thesis using ev False p None by simp
    next
      case (Some e)
      then show ?thesis using ev False p step by simp
    qed
  qed
qed

lemma reader_append:
  "reader loads (xs @ ys) (out, st) =
     (case reader loads xs (out, st) of
        (None, out', st') \<Rightarrow> reader loads ys (out', st')
      | (Some e, out', st') \<Rightarrow> (Some e, out', st'))"
proof (induction xs arbitrary: out st)
  case Nil
  then show ?case by simp
next
  case (Cons ev xs)
  obtain raw now where ev: "ev = (raw, now)" by (cases ev)
  show ?case
    using Cons.IH ev by (auto simp: Let_def split: prod.splits option.splits)
qed

subsection \<open>Claims about the parser\<close>


lemmas sample_defs = sample_loads_def sample_table_def line_list_def line_garbage_def
  line_negative_usage_def line_init_def line_tool_def line_hello_def line_world_def
  line_first_def line_last_def line_empty_result_def

lemmas python_defs = py_get_def py_in_def py_item_def py_iter_def py_lower_def lower_char_def
  py_basename_def py_slice50_def py_strip_def is_space_def

lemmas effect_defs = raise_def pass_def compute_def and_then_def set_activity_def
  count_chunk_def count_tool_call_def add_tokens_def store_session_id_def record_edit_def
  touch_def swallow_def

lemmas parser_defs = parse_stream_line_def parse_event_def unwrap_envelope_def
  capture_session_id_def content_block_events_def add_usage_def assistant_or_result_def
  assistant_turn_def tool_use_block_def classify_tool_def

lemma sample_loads_simps:
  "sample_loads line_list = Some (JArr [])"
  "sample_loads line_garbage = None"
  "sample_loads line_negative_usage =
     Some (JObj [(''type'', JStr ''assistant''),
               (''message'', JObj [(''usage'', JObj [(''output_tokens'', JInt (- 5))])])])"
  by (simp_all add: sample_defs)

text \<open>
  Claim C1, at a line that is JSON but not an object. The claim says that no call of the parser
  raises; for the line \<^verbatim>\<open>[]\<close> the call \<^verbatim>\<open>data.get("type", "")\<close> raises \<^verbatim>\<open>AttributeError\<close>, which the
  handler for \<^verbatim>\<open>JSONDecodeError\<close> and \<^verbatim>\<open>KeyError\<close> lets through, in any state and at any time.
\<close>

theorem parse_stream_line_raises:
  "parse_stream_line sample_loads line_list now st = (Some AttributeError, st)"
  by (simp add: sample_loads_simps parser_defs python_defs effect_defs)

text \<open>
  Claim C7 as stated fails: an assistant turn whose usage reports \<open>-5\<close> output tokens takes the
  accumulated token count from 0 to \<open>-5\<close>.
\<close>

theorem negative_usage_lowers_count:
  "output_tokens (init_state 0) = PInt 0 \<and>
   output_tokens (state_after sample_loads [(line_negative_usage, 1)] (init_state 0)) = PInt (- 5)"
proof -
  have "py_strip line_negative_usage = line_negative_usage"
    by (simp add: py_strip_def is_space_def line_negative_usage_def)
  moreover have "parse_stream_line sample_loads line_negative_usage 1 (init_state 0) =
      (None, (init_state 0)\<lparr>last_event_time := 1, output_tokens := PInt (- 5)\<rparr>)"
    by (simp add: sample_loads_simps parser_defs python_defs effect_defs init_state_def)
  moreover have "line_negative_usage \<noteq> []"
    by (simp add: line_negative_usage_def)
  ultimately show ?thesis
    by (simp add: state_after_def init_state_def)
qed

lemma reader_extends:
  assumes "reflp R" "transp R"
    and "\<And>raw now st. (raw, now) \<in> set later \<Longrightarrow>
           R st (snd (parse_stream_line loads (py_strip raw) now st))"
  shows "R (snd (snd (reader loads evs (out, st)))) (snd (snd (reader loads (evs @ later) (out, st))))"
proof (cases "reader loads evs (out, st)")
  case (fields e out' st')
  show ?thesis
  proof (cases e)
    case None
    then show ?thesis
      using fields reader_keeps [of R later loads st' out', OF assms]
      by (simp add: reader_append)
  next
    case (Some x)
    then show ?thesis
      using fields assms(1) by (simp add: reader_append reflp_def)
  qed
qed

lemma calls_grow_step: "calls_grow st (snd (parse_stream_line loads line now st))"
  by (simp add: calls_grow_def parse_stream_line_calls)

lemma state_after_init_calls: "0 \<le> tool_calls (state_after loads evs (init_state t0))"
proof -
  have "calls_grow (init_state t0) (state_after loads evs (init_state t0))"
    unfolding state_after_def
    by (rule reader_keeps) (simp_all add: calls_grow_order calls_grow_step)
  then show ?thesis by (simp add: calls_grow_def init_state_def)
qed

lemma state_after_calls:
  "tool_calls (state_after loads evs st) \<le> tool_calls (state_after loads (evs @ later) st)"
proof -
  have "calls_grow (state_after loads evs st) (state_after loads (evs @ later) st)"
    unfolding state_after_def
    by (rule reader_extends) (simp_all add: calls_grow_order calls_grow_step)
  then show ?thesis by (simp add: calls_grow_def)
qed

lemma tokens_grow_step:
  assumes "\<forall>ev \<in> set evs. line_tokens_ok loads (py_strip (fst ev))" "(raw, now) \<in> set evs"
  shows "tokens_grow st (snd (parse_stream_line loads (py_strip raw) now st))"
proof -
  have "line_tokens_ok loads (py_strip raw)"
    using assms by force
  then show ?thesis
    using parse_stream_line_tokens [of loads "py_strip raw" st _ now] by (simp add: tokens_grow_def)
qed

lemma state_after_tokens:
  assumes "\<forall>ev \<in> set (evs @ later). line_tokens_ok loads (py_strip (fst ev))"
  shows "\<exists>a b. output_tokens (state_after loads evs (init_state t0)) = PInt a \<and>
    output_tokens (state_after loads (evs @ later) (init_state t0)) = PInt b \<and> 0 \<le> a \<and> a \<le> b"
proof -
  have "tokens_grow (init_state t0) (state_after loads evs (init_state t0))"
    unfolding state_after_def using assms
    by (intro reader_keeps [of tokens_grow] tokens_grow_order tokens_grow_step [of "evs @ later"])
      simp_all
  then obtain a where a: "output_tokens (state_after loads evs (init_state t0)) = PInt a" "0 \<le> a"
    by (auto simp: tokens_grow_def init_state_def)
  have "tokens_grow (state_after loads evs (init_state t0))
      (state_after loads (evs @ later) (init_state t0))"
    unfolding state_after_def using assms
    by (intro reader_extends [of tokens_grow] tokens_grow_order tokens_grow_step [of "evs @ later"])
      simp_all
  then obtain b where "output_tokens (state_after loads (evs @ later) (init_state t0)) = PInt b" "a \<le> b"
    using a(1) by (auto simp: tokens_grow_def)
  with a show ?thesis by blast
qed

text \<open>
  Claim C7, amended. Across any sequence of lines worked through by the reader, from the
  initial state: the tool-invocation count is non-negative and never decreases; the
  output-token count is a non-negative integer and never decreases, provided that every
  \<open>output_tokens\<close> field of the events is a non-negative integer.
\<close>

theorem counts_never_decrease:
  "0 \<le> tool_calls (state_after loads evs (init_state t0)) \<and>
   tool_calls (state_after loads evs (init_state t0))
     \<le> tool_calls (state_after loads (evs @ later) (init_state t0)) \<and>
   ((\<forall>ev \<in> set (evs @ later). line_tokens_ok loads (py_strip (fst ev))) \<longrightarrow>
      (\<exists>a b. output_tokens (state_after loads evs (init_state t0)) = PInt a \<and>
         output_tokens (state_after loads (evs @ later) (init_state t0)) = PInt b \<and>
         0 \<le> a \<and> a \<le> b))"
  using state_after_init_calls state_after_calls state_after_tokens by blast

lemma sample_loads_tool:
  "sample_loads line_tool =
     Some (JObj [(''type'', JStr ''assistant''),
               (''message'',
                  JObj [(''usage'', JObj [(''output_tokens'', JInt 7)]),
                        (''content'',
                           JArr [JObj [(''type'', JStr ''tool_use''), (''name'', JStr ''Bash''),
                                       (''input'', JObj [(''command'', JStr ''ls'')])]])])])"
  by (simp add: sample_defs)

lemma strip_line_tool: "py_strip line_tool = line_tool" "line_tool \<noteq> []"
  by (simp_all add: py_strip_def is_space_def line_tool_def)

theorem counts_never_decrease_witness:
  "line_tokens_ok sample_loads (py_strip line_tool) \<and>
   line_tokens_ok sample_loads (py_strip line_garbage) \<and>
   (\<exists>a b. output_tokens (state_after sample_loads [(line_tool, 1)] (init_state 0)) = PInt a \<and>
      output_tokens (state_after sample_loads ([(line_tool, 1)] @ [(line_garbage, 2), (line_tool, 3)])
        (init_state 0)) = PInt b \<and> 0 \<le> a \<and> a \<le> b)"
proof -
  have "py_strip line_garbage = line_garbage"
    by (simp add: py_strip_def is_space_def line_garbage_def)
  then have ok: "line_tokens_ok sample_loads (py_strip line_tool)"
    "line_tokens_ok sample_loads (py_strip line_garbage)"
    by (simp_all add: line_tokens_ok_def strip_line_tool sample_loads_tool sample_loads_simps)
  then have "\<forall>ev \<in> set ([(line_tool, 1::real)] @ [(line_garbage, 2), (line_tool, 3)]).
      line_tokens_ok sample_loads (py_strip (fst ev))"
    by simp
  then show ?thesis
    using ok counts_never_decrease [of sample_loads "[(line_tool, 1)]" 0
        "[(line_garbage, 2), (line_tool, 3)]"]
    by blast
qed

section \<open>Properties of the result reconciler\<close>

lemma find_result_skips:
  assumes "\<forall>p \<in> set pre. skipped_line (loads p)"
  shows "find_result loads (pre @ rest) = find_result loads rest"
  using assms
proof (induction pre)
  case Nil
  then show ?case by simp
next
  case (Cons p pre)
  then have "skipped_line (loads p)" by simp
  then have "find_result loads (p # (pre @ rest)) = find_result loads (pre @ rest)"
    by (auto simp: skipped_line_def py_get_def split: option.splits json.splits)
  then show ?case using Cons by simp
qed

lemma find_result_hit:
  assumes "loads l = Some d" "is_result_event (Some d)"
  shows "find_result loads (l # rest) = Inr (result_field d)"
  using assms
  by (auto simp: is_result_event_def result_field_def py_get_def split: json.splits option.splits)

lemma find_result_first:
  assumes "\<forall>p \<in> set pre. skipped_line (loads p)" "loads l = Some d" "is_result_event (Some d)"
  shows "find_result loads (pre @ l # post) = Inr (result_field d)"
proof -
  have "find_result loads (pre @ l # post) = find_result loads (l # post)"
    using assms(1) by (rule find_result_skips)
  also have "\<dots> = Inr (result_field d)"
    using assms(2,3) by (rule find_result_hit)
  finally show ?thesis .
qed

lemma fragment_lines_simps [simp]:
  "fragment_lines [] = []"
  "fragment_lines (f # fs) = f @ ''\<newline>'' @ fragment_lines fs"
  "fragment_lines (fs @ gs) = fragment_lines fs @ fragment_lines gs"
  by (simp_all add: fragment_lines_def)








lemma sample_loads_results:
  "sample_loads line_first = Some (JObj [(''type'', JStr ''result''), (''result'', JStr ''first'')])"
  "sample_loads line_last = Some (JObj [(''type'', JStr ''result''), (''result'', JStr ''last'')])"
  "sample_loads line_empty_result = Some (JObj [(''type'', JStr ''result''), (''result'', JStr [])])"
  by (simp_all add: sample_defs)

lemma sample_loads_texts:
  "sample_loads line_hello =
     Some (JObj [(''type'', JStr ''assistant''),
               (''message'',
                  JObj [(''content'',
                           JArr [JObj [(''type'', JStr ''text''), (''text'', JStr ''Hello '')]])])])"
  "sample_loads line_world =
     Some (JObj [(''type'', JStr ''assistant''),
               (''message'',
                  JObj [(''content'',
                           JArr [JObj [(''type'', JStr ''text''), (''text'', JStr ''world'')]])])])"
  "sample_loads line_init =
     Some (JObj [(''type'', JStr ''system''), (''subtype'', JStr ''init''),
               (''session_id'', JStr ''s-1'')])"
  by (simp_all add: sample_defs)

lemmas sample_loads_all = sample_loads_simps sample_loads_tool sample_loads_results
  sample_loads_texts

lemmas reconciler_defs = extract_final_text_def message_blocks_def add_newline_def
  append_text_def py_get_def py_iter_def

lemmas stream_defs = is_result_event_def result_events_def result_field_def skipped_line_def
  block_fragments_def event_fragments_def

text \<open>
  Claim C3 as stated fails: of two terminal-result events the extraction returns the result
  field of the first, not of the last.
\<close>

theorem first_result_not_last:
  "extract_final_text sample_loads [line_first, line_last] [] = Inr (JStr ''first'') \<and>
   result_field (last (result_events sample_loads [line_first, line_last])) = JStr ''last''"
  by (simp add: sample_loads_all reconciler_defs stream_defs)

text \<open>
  Claim C3, amended. For every captured output sequence in which a terminal-result event
  comes after lines that \<^verbatim>\<open>json.loads\<close> rejects with \<^verbatim>\<open>JSONDecodeError\<close> or that are JSON
  objects other than terminal-result events, and whose result field is truthy (a non-empty
  text), the extracted final text is the result field of that first terminal-result event,
  whatever assistant text and whatever later events the sequence holds.
\<close>

theorem first_result_wins:
  assumes "\<forall>p \<in> set pre. skipped_line (loads p)"
    and "loads l = Some d" "is_result_event (Some d)" "truthy (result_field d)"
  shows "extract_final_text loads (pre @ l # post) err = Inr (result_field d)"
  using assms(4) find_result_first [OF assms(1-3), of post]
  by (simp add: extract_final_text_def)

theorem first_result_wins_witness:
  "skipped_line (sample_loads line_garbage) \<and> skipped_line (sample_loads line_hello) \<and>
   is_result_event (sample_loads line_first) \<and>
   extract_final_text sample_loads ([line_garbage, line_hello] @ line_first # [line_last, line_world]) []
     = Inr (JStr ''first'')"
proof -
  have skipped: "\<forall>p \<in> set [line_garbage, line_hello]. skipped_line (sample_loads p)"
    by (simp add: sample_loads_all stream_defs)
  have event: "is_result_event (Some (JObj [(''type'', JStr ''result''), (''result'', JStr ''first'')]))"
    and field: "result_field (JObj [(''type'', JStr ''result''), (''result'', JStr ''first'')]) = JStr ''first''"
    by (simp_all add: stream_defs)
  have "extract_final_text sample_loads ([line_garbage, line_hello] @ line_first # [line_last, line_world]) []
      = Inr (JStr ''first'')"
    using first_result_wins [OF skipped sample_loads_results(1) event, of "[line_last, line_world]" "[]"]
    by (simp add: field)
  then show ?thesis
    using skipped event by (simp add: sample_loads_results)
qed







section \<open>Properties of the process supervisor\<close>

subsection \<open>Effects that are blind to the count of content increments\<close>

lemma alike_refl [simp]: "alike st st"
  by (simp add: alike_def)

lemma alike_sym: "alike st st' \<Longrightarrow> alike st' st"
  by (simp add: alike_def)

lemma alike_trans: "alike st st' \<Longrightarrow> alike st' st'' \<Longrightarrow> alike st st''"
  by (simp add: alike_def)

lemma alike_fields:
  assumes "alike st st'"
  shows "tool_calls st = tool_calls st'" "files_written st = files_written st'"
    "last_activity st = last_activity st'" "session_id st = session_id st'"
    "last_event_time st = last_event_time st'" "output_tokens st = output_tokens st'"
proof -
  have eq: "st\<lparr>chunks_since_heartbeat := 0\<rparr> = st'\<lparr>chunks_since_heartbeat := 0\<rparr>"
    using assms by (simp add: alike_def)
  show "tool_calls st = tool_calls st'"
    using arg_cong [OF eq, of tool_calls] by simp
  show "files_written st = files_written st'"
    using arg_cong [OF eq, of files_written] by simp
  show "last_activity st = last_activity st'"
    using arg_cong [OF eq, of last_activity] by simp
  show "session_id st = session_id st'"
    using arg_cong [OF eq, of session_id] by simp
  show "last_event_time st = last_event_time st'"
    using arg_cong [OF eq, of last_event_time] by simp
  show "output_tokens st = output_tokens st'"
    using arg_cong [OF eq, of output_tokens] by simp
qed

lemma alike_iff:
  "alike st st' \<longleftrightarrow>
     tool_calls st = tool_calls st' \<and> files_written st = files_written st' \<and>
     last_activity st = last_activity st' \<and> session_id st = session_id st' \<and>
     last_event_time st = last_event_time st' \<and> output_tokens st = output_tokens st'"
  by (cases st; cases st') (auto simp: alike_def)

lemma blindD:
  "blind f \<Longrightarrow> alike st st' \<Longrightarrow> fst (f st) = fst (f st') \<and> alike (snd (f st)) (snd (f st'))"
  by (simp add: blind_def)

lemma blind_pass: "blind pass"
  by (simp add: blind_def pass_def)

lemma blind_raise: "blind (raise e)"
  by (simp add: blind_def raise_def)

lemma blind_compute: "(\<And>v. x = Inr v \<Longrightarrow> blind (f v)) \<Longrightarrow> blind (compute x f)"
  by (cases x) (simp_all add: compute_def blind_raise)

lemma blind_and_then:
  assumes "blind f" "blind g"
  shows "blind (and_then f g)"
proof -
  have "fst (and_then f g st) = fst (and_then f g st') \<and>
      alike (snd (and_then f g st)) (snd (and_then f g st'))" if a: "alike st st'" for st st'
  proof -
    obtain r s where f1: "f st = (r, s)" by (cases "f st")
    obtain r' s' where f2: "f st' = (r', s')" by (cases "f st'")
    have r: "r = r'" and s: "alike s s'"
      using blindD [OF assms(1) a] f1 f2 by simp_all
    show ?thesis
    proof (cases r)
      case None
      then show ?thesis
        using blindD [OF assms(2) s] r f1 f2 by (simp add: and_then_def)
    next
      case (Some e)
      then show ?thesis using s r f1 f2 by (simp add: and_then_def)
    qed
  qed
  then show ?thesis by (simp add: blind_def)
qed

lemma blind_if: "blind f \<Longrightarrow> blind g \<Longrightarrow> blind (if c then f else g)"
  by simp

lemma blind_prims:
  "blind (set_activity a)" "blind count_chunk" "blind count_tool_call"
  "blind (store_session_id sid)" "blind (record_edit name base)" "blind (touch now)"
  by (auto simp: blind_def alike_iff set_activity_def count_chunk_def count_tool_call_def
      store_session_id_def record_edit_def touch_def)

lemma blind_add_tokens: "blind (add_tokens v)"
  by (auto simp: blind_def alike_iff add_tokens_def split: sum.splits)

lemmas blind_intros = blind_pass blind_raise blind_compute blind_and_then blind_if blind_prims
  blind_add_tokens

lemma blind_add_usage: "blind (add_usage usage)"
  unfolding add_usage_def by (intro blind_intros)

lemma blind_capture: "blind (capture_session_id data t)"
  unfolding capture_session_id_def by (intro blind_intros)

lemma blind_content: "blind (content_block_events inner t)"
  unfolding content_block_events_def by (intro blind_intros blind_add_usage)

lemma blind_classify: "blind (classify_tool name lname inp)"
  unfolding classify_tool_def by (intro blind_intros)

lemma blind_block: "blind (tool_use_block b)"
  unfolding tool_use_block_def by (intro blind_intros blind_classify)

lemma blind_blocks: "blind (for_blocks bs)"
  by (induction bs) (simp_all add: blind_intros blind_block)

lemma blind_turn: "blind (assistant_turn data)"
  unfolding assistant_turn_def by (intro blind_intros blind_add_usage blind_blocks)

lemma blind_assistant: "blind (assistant_or_result data t)"
  unfolding assistant_or_result_def by (intro blind_intros blind_turn)

lemma blind_parse_event: "blind (parse_event data now)"
  unfolding parse_event_def
  by (intro blind_intros blind_capture blind_content blind_assistant)

lemma parse_stream_line_alike:
  assumes "alike st st'"
  shows "fst (parse_stream_line loads line now st) = fst (parse_stream_line loads line now st')"
    and "alike (snd (parse_stream_line loads line now st)) (snd (parse_stream_line loads line now st'))"
proof -
  have "fst (parse_stream_line loads line now st) = fst (parse_stream_line loads line now st') \<and>
    alike (snd (parse_stream_line loads line now st)) (snd (parse_stream_line loads line now st'))"
  proof (cases "loads line")
    case None
    then show ?thesis using assms by (simp add: parse_stream_line_def)
  next
    case (Some data)
    have "fst (parse_event data now st) = fst (parse_event data now st')"
      "alike (snd (parse_event data now st)) (snd (parse_event data now st'))"
      using blindD [OF blind_parse_event assms, of data now] by simp_all
    then show ?thesis
      using Some by (auto simp: parse_stream_line_def split: prod.splits)
  qed
  then show "fst (parse_stream_line loads line now st) = fst (parse_stream_line loads line now st')"
    and "alike (snd (parse_stream_line loads line now st)) (snd (parse_stream_line loads line now st'))"
    by simp_all
qed

lemma reader_alike:
  assumes "alike st st'"
  shows "alike_reading (reader loads evs (out, st)) (reader loads evs (out, st'))"
  using assms
proof (induction evs arbitrary: out st st')
  case Nil
  then show ?case by (simp add: alike_reading_def)
next
  case (Cons ev evs)
  obtain raw now where ev: "ev = (raw, now)" by (cases ev)
  let ?line = "py_strip raw"
  show ?case
  proof (cases "?line = []")
    case True
    then show ?thesis using Cons ev by simp
  next
    case False
    obtain r s where p: "parse_stream_line loads ?line now st = (r, s)"
      by (cases "parse_stream_line loads ?line now st")
    obtain r' s' where p': "parse_stream_line loads ?line now st' = (r', s')"
      by (cases "parse_stream_line loads ?line now st'")
    have r: "r = r'" and s: "alike s s'"
      using parse_stream_line_alike [OF Cons.prems, of loads ?line now] p p' by simp_all
    show ?thesis
    proof (cases r)
      case None
      then show ?thesis
        using ev False p p' r Cons.IH [OF s] by simp
    next
      case (Some e)
      then show ?thesis
        using ev False p p' r s by (simp add: alike_reading_def)
    qed
  qed
qed

lemma read_more_alike:
  assumes "alike_reading rd rd'"
  shows "alike_reading (read_more loads ls rd) (read_more loads ls rd')"
proof -
  obtain e out st where rd: "rd = (e, out, st)" by (cases rd)
  obtain e' out' st' where rd': "rd' = (e', out', st')" by (cases rd')
  have eq: "e = e'" "out = out'" "alike st st'"
    using assms rd rd' by (simp_all add: alike_reading_def)
  show ?thesis
  proof (cases e)
    case None
    then show ?thesis
      using rd rd' eq reader_alike [OF eq(3), of loads ls out] by (simp add: read_more_def)
  next
    case (Some x)
    then show ?thesis
      using rd rd' eq by (simp add: read_more_def alike_reading_def)
  qed
qed

lemma reset_chunks_alike:
  "alike_reading rd rd' \<Longrightarrow> alike_reading (reset_chunks rd) rd'"
  "alike_reading rd rd' \<Longrightarrow> alike_reading rd (reset_chunks rd')"
  by (auto simp: alike_reading_def reset_chunks_def alike_iff split: prod.splits)

subsection \<open>The main loop\<close>

lemma main_loop_cases:
  fixes loads limit notify start exited t ts prev rd
  defines "el \<equiv> py_int (tick_now t - start)"
    and "rd1 \<equiv> read_more loads (tick_lines t) rd"
  obtains (timeout) "limit \<le> el"
      "main_loop loads limit notify start exited (t # ts) prev rd =
         (True, kill_process_graceful exited, rd1)"
    | (beat) "\<not> limit \<le> el" "60 \<le> el - prev" "notify"
      "main_loop loads limit notify start exited (t # ts) prev rd =
         (fst (main_loop loads limit notify start exited ts el (reset_chunks rd1)),
          SendWhatsApp (HeartbeatMsg (render_heartbeat el (tick_hb_now t) (snd (snd rd1))))
          # fst (snd (main_loop loads limit notify start exited ts el (reset_chunks rd1))),
          snd (snd (main_loop loads limit notify start exited ts el (reset_chunks rd1))))"
    | (idle) "\<not> limit \<le> el" "\<not> (60 \<le> el - prev \<and> notify)"
      "main_loop loads limit notify start exited (t # ts) prev rd =
         main_loop loads limit notify start exited ts prev rd1"
proof -
  consider "limit \<le> el" | "\<not> limit \<le> el" "60 \<le> el - prev \<and> notify"
    | "\<not> limit \<le> el" "\<not> (60 \<le> el - prev \<and> notify)"
    by blast
  then show thesis
  proof cases
    case 1
    then show ?thesis
      by (intro timeout) (simp_all add: el_def rd1_def Let_def)
  next
    case 2
    then show ?thesis
      by (intro beat) (simp_all add: el_def rd1_def Let_def split: prod.splits)
  next
    case 3
    then show ?thesis
      by (intro idle) (auto simp: el_def rd1_def Let_def)
  qed
qed

lemma heartbeat_times_simps [simp]:
  "heartbeat_times [] = []"
  "heartbeat_times (x # xs) = heartbeat_time x @ heartbeat_times xs"
  "heartbeat_times (xs @ ys) = heartbeat_times xs @ heartbeat_times ys"
  by (simp_all add: heartbeat_times_def)

lemma kill_process_graceful_quiet [simp]:
  "heartbeat_times (kill_process_graceful exited) = []"
  "filter is_whatsapp (kill_process_graceful exited) = []"
  "filter is_deed (kill_process_graceful exited) = kill_process_graceful exited"
  by (simp_all add: kill_process_graceful_def)

lemma hb_elapsed_render [simp]: "hb_elapsed (render_heartbeat elapsed now st) = elapsed"
  by (simp add: render_heartbeat_def Let_def)

lemma main_loop_timed_out:
  "fst (main_loop loads limit notify start exited ts beat0 rd) \<longleftrightarrow>
     (\<exists>t \<in> set ts. limit \<le> py_int (tick_now t - start))"
proof (induction ts arbitrary: beat0 rd)
  case Nil
  then show ?case by simp
next
  case (Cons t ts)
  show ?case
  proof (cases rule: main_loop_cases [where loads=loads and limit=limit and notify=notify and start=start and exited=exited and t=t and ts=ts and prev=beat0 and rd=rd])
    case timeout
    then show ?thesis by (simp del: main_loop.simps)
  next
    case beat
    then show ?thesis using Cons.IH by (simp del: main_loop.simps)
  next
    case idle
    then show ?thesis using Cons.IH by (simp del: main_loop.simps)
  qed
qed

lemma main_loop_calls:
  "\<exists>hbs. fst (snd (main_loop loads limit notify start exited ts beat0 rd)) =
       hbs @ (if fst (main_loop loads limit notify start exited ts beat0 rd)
              then kill_process_graceful exited else []) \<and>
     (\<forall>x \<in> set hbs. is_heartbeat x) \<and> (\<not> notify \<longrightarrow> hbs = [])"
proof (induction ts arbitrary: beat0 rd)
  case Nil
  then show ?case by simp
next
  case (Cons t ts)
  show ?case
  proof (cases rule: main_loop_cases [where loads=loads and limit=limit and notify=notify and start=start and exited=exited and t=t and ts=ts and prev=beat0 and rd=rd])
    case timeout
    then show ?thesis by (simp del: main_loop.simps)
  next
    case beat
    let ?el = "py_int (tick_now t - start)"
    let ?rd = "reset_chunks (read_more loads (tick_lines t) rd)"
    let ?hb = "SendWhatsApp (HeartbeatMsg (render_heartbeat ?el (tick_hb_now t)
      (snd (snd (read_more loads (tick_lines t) rd)))))"
    obtain hbs where hbs:
      "fst (snd (main_loop loads limit notify start exited ts ?el ?rd)) =
         hbs @ (if fst (main_loop loads limit notify start exited ts ?el ?rd)
                then kill_process_graceful exited else [])"
      "\<forall>x \<in> set hbs. is_heartbeat x"
      using Cons.IH [of ?el ?rd] by blast
    have "fst (snd (main_loop loads limit notify start exited (t # ts) beat0 rd)) =
        (?hb # hbs) @ (if fst (main_loop loads limit notify start exited (t # ts) beat0 rd)
                       then kill_process_graceful exited else [])"
      using beat(4) hbs(1) by (simp del: main_loop.simps)
    moreover have "\<forall>x \<in> set (?hb # hbs). is_heartbeat x"
      using hbs(2) by simp
    moreover have "\<not> notify \<longrightarrow> ?hb # hbs = []"
      using beat(3) by simp
    ultimately show ?thesis by blast
  next
    case idle
    then show ?thesis
      using Cons.IH [of beat0 "read_more loads (tick_lines t) rd"] by (simp del: main_loop.simps)
  qed
qed

lemma main_loop_heartbeat_times:
  "heartbeat_times (fst (snd (main_loop loads limit True start exited ts beat0 rd))) =
     heartbeat_schedule limit beat0 (map (\<lambda>t. py_int (tick_now t - start)) ts)"
proof (induction ts arbitrary: beat0 rd)
  case Nil
  then show ?case by simp
next
  case (Cons t ts)
  show ?case
  proof (cases rule: main_loop_cases [where loads=loads and limit=limit and notify=True and start=start and exited=exited and t=t and ts=ts and prev=beat0 and rd=rd])
    case timeout
    then show ?thesis by (simp del: main_loop.simps)
  next
    case beat
    then show ?thesis using Cons.IH by (simp del: main_loop.simps)
  next
    case idle
    then show ?thesis using Cons.IH by (simp del: main_loop.simps)
  qed
qed

text \<open>
  Whether heartbeats are sent changes neither when the loop ends, nor what it does to the
  subprocess, nor what the reader takes in, the count of content increments apart.
\<close>

lemma main_loop_alike:
  assumes "alike_reading rd rd'"
  shows "fst (main_loop loads limit notify start exited ts beat0 rd) =
      fst (main_loop loads limit notify' start exited ts beat' rd') \<and>
    filter is_deed (fst (snd (main_loop loads limit notify start exited ts beat0 rd))) =
      filter is_deed (fst (snd (main_loop loads limit notify' start exited ts beat' rd'))) \<and>
    alike_reading (snd (snd (main_loop loads limit notify start exited ts beat0 rd)))
      (snd (snd (main_loop loads limit notify' start exited ts beat' rd')))"
  using assms
proof (induction ts arbitrary: beat0 beat' rd rd')
  case Nil
  then show ?case by simp
next
  case (Cons t ts)
  let ?rd = "read_more loads (tick_lines t) rd"
  let ?rd' = "read_more loads (tick_lines t) rd'"
  have rd: "alike_reading ?rd ?rd'"
    using Cons.prems by (rule read_more_alike)
  have r1: "alike_reading (reset_chunks ?rd) ?rd'"
    and r2: "alike_reading ?rd (reset_chunks ?rd')"
    and r3: "alike_reading (reset_chunks ?rd) (reset_chunks ?rd')"
    using rd reset_chunks_alike by blast+
  show ?case
  proof (cases rule: main_loop_cases [where loads=loads and limit=limit and notify=notify and start=start and exited=exited and t=t and ts=ts and prev=beat0 and rd=rd])
    case timeout
    then show ?thesis
      using rd
      by (cases rule: main_loop_cases [where loads=loads and limit=limit and notify=notify' and start=start and exited=exited and t=t and ts=ts and prev=beat' and rd=rd'])
        (simp_all del: main_loop.simps)
  next
    case beat
    then show ?thesis
      using Cons.IH [OF r2] Cons.IH [OF r1] Cons.IH [OF r3]
      by (cases rule: main_loop_cases [where loads=loads and limit=limit and notify=notify' and start=start and exited=exited and t=t and ts=ts and prev=beat' and rd=rd'])
        (simp_all del: main_loop.simps)
  next
    case idle
    then show ?thesis
      using Cons.IH [OF rd] Cons.IH [OF r2]
      by (cases rule: main_loop_cases [where loads=loads and limit=limit and notify=notify' and start=start and exited=exited and t=t and ts=ts and prev=beat' and rd=rd'])
        (simp_all del: main_loop.simps)
  qed
qed

subsection \<open>After the loop\<close>

lemma report_saved:
  "report a token timed_out code st None out =
     Inr ([WriteOutput out,
           PrintDone (run_status_of timed_out (case code of Some c \<Rightarrow> c | None \<Rightarrow> - 1))
             (case code of Some c \<Rightarrow> c | None \<Rightarrow> - 1)]
          @ (if truthy (session_id st)
             then [RegisterSession (session_id st)
                     (session_status timed_out (case code of Some c \<Rightarrow> c | None \<Rightarrow> - 1))]
             else [])
          @ (if given (session a) \<and> truthy token
             then [NotifySession
                     (final_message timed_out (case code of Some c \<Rightarrow> c | None \<Rightarrow> - 1) st out)]
             else []))"
  by (simp add: report_def Let_def)

lemma report_failed: "report a token timed_out code st (Some e) out = Inl e"
  by (simp add: report_def)

lemma report_calls:
  assumes "Inr acts = report a token timed_out code st failure out"
  shows "filter is_heartbeat acts = []"
    and "heartbeat_times acts = []"
    and "filter is_resume_notice acts = []"
proof -
  have "failure = None"
    using assms by (cases failure) (simp_all add: report_failed)
  then have acts: "Inr acts = report a token timed_out code st None out"
    using assms by simp
  show "filter is_heartbeat acts = []"
    using acts by (simp add: report_saved final_message_def)
  show "heartbeat_times acts = []"
    using acts by (simp add: report_saved final_message_def)
  show "filter is_resume_notice acts = []"
    using acts by (simp add: report_saved final_message_def)
qed

lemma crash_handler_calls:
  "filter is_heartbeat (crash_handler a token gj e) = []"
  "heartbeat_times (crash_handler a token gj e) = []"
  "filter is_resume_notice (crash_handler a token gj e) = []"
  "filter is_registry_write (crash_handler a token gj e) = []"
  "filter is_report (crash_handler a token gj e) = []"
  "filter is_deed (crash_handler a token gj e) = []"
  by (simp_all add: crash_handler_def)

lemma conclude_resume_not_found:
  assumes "resume_not_found a (stderr_text w)"
  shows "conclude loads a w timed_out rd =
    (if given (session a) \<and> can_notify a w
     then [NotifySession (ResumeFailedMsg (case resume a of Some r \<Rightarrow> r | None \<Rightarrow> []))] else [])"
  using assms by (auto simp: conclude_def reconcile_def can_notify_def Let_def)

lemma conclude_report:
  assumes "\<not> resume_not_found a (stderr_text w)"
    and "extract_final_text loads (fst (snd rd)) (stderr_text w) = Inr (JStr out)"
    and "write_error w = None"
  shows "Inr (conclude loads a w timed_out rd) =
    report a (load_token (session a) (config_token w)) timed_out (returncode w) (snd (snd rd))
      None out"
  using assms by (simp add: conclude_def reconcile_def Let_def report_saved)

lemma conclude_write_failed:
  assumes "\<not> resume_not_found a (stderr_text w)"
    and "extract_final_text loads (fst (snd rd)) (stderr_text w) = Inr (JStr out)"
    and "write_error w = Some e"
  shows "conclude loads a w timed_out rd =
    crash_handler a (load_token (session a) (config_token w)) (extract_group_jid (session a)) e"
  using assms by (simp add: conclude_def reconcile_def Let_def report_failed)

lemma conclude_cases:
  obtains (resume) "resume_not_found a (stderr_text w)"
      "conclude loads a w timed_out rd =
         (if given (session a) \<and> can_notify a w
          then [NotifySession (ResumeFailedMsg (case resume a of Some r \<Rightarrow> r | None \<Rightarrow> []))]
          else [])"
    | (report) out where "\<not> resume_not_found a (stderr_text w)"
      "extract_final_text loads (fst (snd rd)) (stderr_text w) = Inr (JStr out)"
      "write_error w = None"
      "Inr (conclude loads a w timed_out rd) =
         report a (load_token (session a) (config_token w)) timed_out (returncode w)
           (snd (snd rd)) None out"
    | (crash) e where "\<not> resume_not_found a (stderr_text w)"
      "conclude loads a w timed_out rd =
         crash_handler a (load_token (session a) (config_token w))
           (extract_group_jid (session a)) e"
proof (cases "resume_not_found a (stderr_text w)")
  case True
  then show ?thesis using resume conclude_resume_not_found by blast
next
  case False
  show ?thesis
  proof (cases "extract_final_text loads (fst (snd rd)) (stderr_text w)")
    case (Inl e)
    then show ?thesis
      using False by (intro crash [of e]) (simp_all add: conclude_def reconcile_def Let_def)
  next
    case (Inr v)
    show ?thesis
    proof (cases "\<exists>out. v = JStr out")
      case True
      then obtain out where out: "v = JStr out" by blast
      show ?thesis
      proof (cases "write_error w")
        case None
        then show ?thesis
          using False Inr out conclude_report [OF False, of loads rd out timed_out]
          by (intro report [of out]) simp_all
      next
        case (Some e)
        then show ?thesis
          using False Inr out conclude_write_failed [OF False, of loads rd out e timed_out]
          by (intro crash [of e]) simp_all
      qed
    next
      case False': False
      then show ?thesis
        using False Inr
        by (intro crash [of TypeError]) (cases v; simp add: conclude_def reconcile_def Let_def)+
    qed
  qed
qed

lemma conclude_quiet:
  "filter is_heartbeat (conclude loads a w timed_out rd) = []"
  "heartbeat_times (conclude loads a w timed_out rd) = []"
proof -
  have "filter is_heartbeat (conclude loads a w timed_out rd) = [] \<and>
      heartbeat_times (conclude loads a w timed_out rd) = []"
  proof (cases rule: conclude_cases [of a w loads timed_out rd])
    case resume
    then show ?thesis by simp
  next
    case (report out)
    then show ?thesis using report_calls(1,2) [OF report(4)] by simp
  next
    case (crash e)
    then show ?thesis by (simp add: crash_handler_calls)
  qed
  then show "filter is_heartbeat (conclude loads a w timed_out rd) = []"
    and "heartbeat_times (conclude loads a w timed_out rd) = []"
    by simp_all
qed

text \<open>
  A run that ends in the resume-not-found short circuit or in the crash handler saves no
  text, prints no status line and writes no registry entry.
\<close>

lemma conclude_unclassified:
  assumes "resume_not_found a (stderr_text w) \<or> write_error w \<noteq> None \<or>
      (\<forall>out. extract_final_text loads (fst (snd rd)) (stderr_text w) \<noteq> Inr (JStr out))"
  shows "filter is_report (conclude loads a w timed_out rd) = []"
    and "filter is_registry_write (conclude loads a w timed_out rd) = []"
proof -
  have "filter is_report (conclude loads a w timed_out rd) = [] \<and>
      filter is_registry_write (conclude loads a w timed_out rd) = []"
  proof (cases rule: conclude_cases [of a w loads timed_out rd])
    case resume
    then show ?thesis by simp
  next
    case (report out)
    then show ?thesis using assms by simp
  next
    case (crash e)
    then show ?thesis by (simp add: crash_handler_calls)
  qed
  then show "filter is_report (conclude loads a w timed_out rd) = []"
    and "filter is_registry_write (conclude loads a w timed_out rd) = []"
    by simp_all
qed

subsection \<open>The run\<close>

lemma supervise_timed_out: "fst (supervise loads a w) \<longleftrightarrow> reaches_timeout a w"
  by (simp add: supervise_def reaches_timeout_def main_loop_timed_out)

lemma supervise_calls:
  "\<exists>hbs. fst (snd (supervise loads a w)) =
       hbs @ (if reaches_timeout a w then kill_process_graceful (exits_in_grace w) else []) \<and>
     (\<forall>x \<in> set hbs. is_heartbeat x) \<and> (\<not> can_notify a w \<longrightarrow> hbs = [])"
  using main_loop_calls [of loads "timeout a" "can_notify a w" "start_time w" "exits_in_grace w"
      "ticks w" 0 "(None, [], init_state (init_time w))"]
  by (simp add: supervise_def [symmetric] supervise_timed_out)

lemma heartbeat_only:
  assumes "\<forall>x \<in> set hbs. is_heartbeat x"
  shows "filter is_whatsapp hbs = hbs" "filter is_registry_write hbs = []"
    "filter is_report hbs = []" "filter is_resume_notice hbs = []" "filter is_deed hbs = []"
proof -
  have "is_whatsapp x \<and> \<not> is_registry_write x \<and> \<not> is_report x \<and> \<not> is_resume_notice x \<and>
      \<not> is_deed x" if "is_heartbeat x" for x
    using that by (cases x rule: is_heartbeat.cases) simp_all
  then have "\<forall>x \<in> set hbs. is_whatsapp x \<and> \<not> is_registry_write x \<and> \<not> is_report x \<and>
      \<not> is_resume_notice x \<and> \<not> is_deed x"
    using assms by blast
  then show "filter is_whatsapp hbs = hbs" "filter is_registry_write hbs = []"
    "filter is_report hbs = []" "filter is_resume_notice hbs = []" "filter is_deed hbs = []"
    by (simp_all add: filter_id_conv filter_empty_conv)
qed

lemma kill_process_graceful_filters [simp]:
  "filter is_registry_write (kill_process_graceful exited) = []"
  "filter is_report (kill_process_graceful exited) = []"
  "filter is_resume_notice (kill_process_graceful exited) = []"
  "filter is_heartbeat (kill_process_graceful exited) = []"
  by (simp_all add: kill_process_graceful_def)

lemmas run_defs = run_def can_notify_def supervise_def captured_def conclude_def reconcile_def
  resume_not_found_def extract_group_jid_def load_token_def report_def crash_handler_def
  kill_process_graceful_def read_more_def reset_chunks_def run_status_of_def session_status_def
  final_message_def py_int_def Let_def

lemmas sample_run_defs = plain_args_def group_args_def short_world_def long_world_def
  not_found_text_def steady_ticks_def

lemma strip_line_init: "py_strip line_init = line_init" "line_init \<noteq> []"
  by (simp_all add: py_strip_def is_space_def line_init_def)

lemma parse_line_init:
  "parse_stream_line sample_loads line_init now st =
     (None, st\<lparr>last_event_time := now, session_id := JStr ''s-1''\<rparr>)"
  by (simp add: sample_loads_all parser_defs python_defs effect_defs)

lemma read_line_init:
  "reader sample_loads [(line_init, now)] (out, st) =
     (None, out @ [line_init], st\<lparr>last_event_time := now, session_id := JStr ''s-1''\<rparr>)"
  by (simp add: strip_line_init parse_line_init)

lemma extract_line_init:
  "extract_final_text sample_loads [line_init] err =
     Inr (JStr (if err \<noteq> [] then err else ''(no output captured)''))"
  by (simp add: sample_loads_all reconciler_defs)

text \<open>
  Claim C5 as stated fails: a run without a session key that is started with a resume token
  and whose error stream holds the not-found marker sends no notification at all.
\<close>

theorem resume_failure_unnoticed:
  "resume_not_found (plain_args\<lparr>resume := Some ''old-session''\<rparr>) not_found_text \<and>
   run sample_loads (plain_args\<lparr>resume := Some ''old-session''\<rparr>)
     (short_world\<lparr>stderr_text := not_found_text\<rparr>) = []"
  by (simp add: run_defs sample_run_defs init_state_def del: reader.simps)

text \<open>
  Claim C5, amended. For every run started with a non-empty resume token whose captured error
  stream contains the not-found marker, the run short-circuits: no registry entry is written,
  the result text is neither extracted nor saved and no status is printed, and exactly one
  resume-failure notification is sent when the session key, the auth token and the group
  JID are all available, none otherwise.
\<close>

theorem resume_failure_short_circuit:
  assumes "resume_not_found a (stderr_text w)"
  shows "filter is_registry_write (run loads a w) = [] \<and>
    filter is_report (run loads a w) = [] \<and>
    filter is_resume_notice (run loads a w) =
      (if given (session a) \<and> can_notify a w
       then [NotifySession (ResumeFailedMsg (case resume a of Some r \<Rightarrow> r | None \<Rightarrow> []))]
       else [])"
proof -
  obtain hbs where hbs: "fst (snd (supervise loads a w)) =
      hbs @ (if reaches_timeout a w then kill_process_graceful (exits_in_grace w) else [])"
    "\<forall>x \<in> set hbs. is_heartbeat x"
    using supervise_calls by blast
  note quiet = heartbeat_only [OF hbs(2)]
  show ?thesis
    unfolding run_def hbs(1) conclude_resume_not_found [OF assms]
    using quiet by simp
qed

theorem resume_failure_short_circuit_witness:
  "resume_not_found (group_args\<lparr>resume := Some ''old-session''\<rparr>) not_found_text \<and>
   filter is_registry_write
     (run sample_loads (group_args\<lparr>resume := Some ''old-session''\<rparr>)
        (short_world\<lparr>stderr_text := not_found_text\<rparr>)) = [] \<and>
   filter is_resume_notice
     (run sample_loads (group_args\<lparr>resume := Some ''old-session''\<rparr>)
        (short_world\<lparr>stderr_text := not_found_text\<rparr>))
     = [NotifySession (ResumeFailedMsg ''old-session'')]"
proof -
  have found: "resume_not_found (group_args\<lparr>resume := Some ''old-session''\<rparr>)
      (stderr_text (short_world\<lparr>stderr_text := not_found_text\<rparr>))"
    by (simp add: resume_not_found_def sample_run_defs)
  have "given (session (group_args\<lparr>resume := Some ''old-session''\<rparr>)) \<and>
      can_notify (group_args\<lparr>resume := Some ''old-session''\<rparr>)
        (short_world\<lparr>stderr_text := not_found_text\<rparr>)"
    by (simp add: can_notify_def extract_group_jid_def load_token_def sample_run_defs)
  then show ?thesis
    using resume_failure_short_circuit [OF found, of sample_loads] found
    by (simp add: group_args_def)
qed

text \<open>
  Claim C2 as stated fails: a run started with a resume token reaches the timeout, the subprocess
  is told to terminate and then killed, and because the error stream holds the not-found
  marker the run ends there: nothing is saved, no status is printed and no registry entry
  written, although the reader has captured a run identifier.
\<close>

theorem timeout_without_classification:
  "reaches_timeout (plain_args\<lparr>timeout := 5, resume := Some ''old-session''\<rparr>)
     (short_world\<lparr>stderr_text := not_found_text\<rparr>) \<and>
   session_id (snd (snd (captured sample_loads
     (plain_args\<lparr>timeout := 5, resume := Some ''old-session''\<rparr>)
     (short_world\<lparr>stderr_text := not_found_text\<rparr>)))) = JStr ''s-1'' \<and>
   run sample_loads (plain_args\<lparr>timeout := 5, resume := Some ''old-session''\<rparr>)
     (short_world\<lparr>stderr_text := not_found_text\<rparr>) = [Terminate, WaitExit 10, Kill, WaitExit 5]"
  by (simp add: reaches_timeout_def run_defs sample_run_defs init_state_def strip_line_init
      parse_line_init)

text \<open>
  Claim C2, amended. For every run whose elapsed time reaches the configured timeout at a poll
  that found the subprocess running, the supervisor, having sent nothing but WhatsApp
  messages before, tells the subprocess to terminate, waits up to 10 seconds, and kills it
  (waiting up to 5 seconds more) exactly when it has not exited within the grace period.
  Whatever the exit code, the run never prints the status of a completed or failed run and
  never registers the status "completed" or "failed". When the run does not end in the
  resume-not-found short circuit, the extraction yields a text and writing the output file
  does not raise, the run saves the text, prints the status TIMEOUT with the exit code,
  registers the status "timeout" if a run identifier was captured, and sends the timeout
  notification if a session key and a token are available. In every other case, that is,
  when the run ends in the resume-not-found short circuit, the extraction raises or yields
  no string, or writing the output file raises, no outcome is classified: no text is saved,
  no status line is printed and no registry entry is written.
\<close>

theorem timeout_kills_and_classifies:
  assumes "reaches_timeout a w"
  shows "\<exists>before after.
      run loads a w =
        before @ [Terminate, WaitExit 10] @ (if exits_in_grace w then [] else [Kill, WaitExit 5])
          @ after \<and>
      filter is_whatsapp before = before \<and>
      (\<forall>code. PrintDone StatusOk code \<notin> set after \<and> PrintDone StatusError code \<notin> set after) \<and>
      (\<forall>sid. RegisterSession sid ''completed'' \<notin> set after \<and>
             RegisterSession sid ''failed'' \<notin> set after) \<and>
      (\<forall>out. \<not> resume_not_found a (stderr_text w) \<and>
         extract_final_text loads (fst (snd (captured loads a w))) (stderr_text w) = Inr (JStr out) \<and>
         write_error w = None \<longrightarrow>
         after =
           [WriteOutput out,
            PrintDone StatusTimeout (case returncode w of Some c \<Rightarrow> c | None \<Rightarrow> - 1)]
           @ (if truthy (session_id (snd (snd (captured loads a w))))
              then [RegisterSession (session_id (snd (snd (captured loads a w)))) ''timeout'']
              else [])
           @ (if given (session a) \<and> truthy (load_token (session a) (config_token w))
              then [NotifySession (TimeoutMsg (tool_calls (snd (snd (captured loads a w))))
                      (take 2000 out))]
              else [])) \<and>
      (resume_not_found a (stderr_text w) \<or> write_error w \<noteq> None \<or>
       (\<forall>out. extract_final_text loads (fst (snd (captured loads a w))) (stderr_text w)
                \<noteq> Inr (JStr out)) \<longrightarrow>
         filter is_report after = [] \<and> filter is_registry_write after = [])"
proof -
  obtain hbs where hbs: "fst (snd (supervise loads a w)) =
      hbs @ (if reaches_timeout a w then kill_process_graceful (exits_in_grace w) else [])"
    "\<forall>x \<in> set hbs. is_heartbeat x"
    using supervise_calls by blast
  let ?before = "(if can_notify a w then [SendWhatsApp LaunchMsg] else []) @ hbs"
  let ?after = "conclude loads a w True (captured loads a w)"
  have run: "run loads a w =
      ?before @ [Terminate, WaitExit 10] @ (if exits_in_grace w then [] else [Kill, WaitExit 5])
        @ ?after"
    using assms hbs(1) by (simp add: run_def supervise_timed_out kill_process_graceful_def)
  have before: "filter is_whatsapp ?before = ?before"
    using heartbeat_only(1) [OF hbs(2)] by simp
  have status: "PrintDone StatusOk code \<notin> set ?after \<and> PrintDone StatusError code \<notin> set ?after"
    for code
    by (cases rule: conclude_cases [of a w loads True "captured loads a w"])
      (auto simp: report_saved crash_handler_def run_status_of_def)
  have registry: "RegisterSession sid ''completed'' \<notin> set ?after \<and>
      RegisterSession sid ''failed'' \<notin> set ?after" for sid
    by (cases rule: conclude_cases [of a w loads True "captured loads a w"])
      (auto simp: report_saved crash_handler_def session_status_def)
  have report: "?after =
      [WriteOutput out, PrintDone StatusTimeout (case returncode w of Some c \<Rightarrow> c | None \<Rightarrow> - 1)]
      @ (if truthy (session_id (snd (snd (captured loads a w))))
         then [RegisterSession (session_id (snd (snd (captured loads a w)))) ''timeout''] else [])
      @ (if given (session a) \<and> truthy (load_token (session a) (config_token w))
         then [NotifySession (TimeoutMsg (tool_calls (snd (snd (captured loads a w)))) (take 2000 out))]
         else [])"
    if "\<not> resume_not_found a (stderr_text w)"
      "extract_final_text loads (fst (snd (captured loads a w))) (stderr_text w) = Inr (JStr out)"
      "write_error w = None"
    for out
    using conclude_report [OF that, of True]
    by (simp add: report_saved run_status_of_def session_status_def final_message_def)
  have unclassified: "filter is_report ?after = [] \<and> filter is_registry_write ?after = []"
    if "resume_not_found a (stderr_text w) \<or> write_error w \<noteq> None \<or>
      (\<forall>out. extract_final_text loads (fst (snd (captured loads a w))) (stderr_text w)
               \<noteq> Inr (JStr out))"
    using conclude_unclassified [OF that] by simp
  show ?thesis
    using run before status registry report unclassified by blast
qed

theorem timeout_kills_and_classifies_witness:
  "reaches_timeout (group_args\<lparr>timeout := 5\<rparr>) short_world \<and>
   write_error short_world = None \<and>
   run sample_loads (group_args\<lparr>timeout := 5\<rparr>) short_world =
     [SendWhatsApp LaunchMsg] @ [Terminate, WaitExit 10] @ [Kill, WaitExit 5] @
     [WriteOutput ''(no output captured)'', PrintDone StatusTimeout (- 9),
      RegisterSession (JStr ''s-1'') ''timeout'',
      NotifySession (TimeoutMsg 0 ''(no output captured)'')] \<and>
   reaches_timeout (group_args\<lparr>timeout := 5\<rparr>) (short_world\<lparr>write_error := Some OSError\<rparr>) \<and>
   run sample_loads (group_args\<lparr>timeout := 5\<rparr>) (short_world\<lparr>write_error := Some OSError\<rparr>) =
     [SendWhatsApp LaunchMsg] @ [Terminate, WaitExit 10] @ [Kill, WaitExit 5] @
     [NotifySession (CrashMsg OSError)]"
proof -
  let ?a = "group_args\<lparr>timeout := 5\<rparr>"
  have reach: "reaches_timeout ?a short_world"
    by (simp add: reaches_timeout_def sample_run_defs py_int_def)
  have cap: "captured sample_loads ?a short_world =
      (None, [line_init], (init_state 0)\<lparr>last_event_time := 6, session_id := JStr ''s-1''\<rparr>)"
    by (simp add: run_defs sample_run_defs init_state_def strip_line_init parse_line_init)
  have facts: "\<not> exits_in_grace short_world" "\<not> resume_not_found ?a (stderr_text short_world)"
    "returncode short_world = Some (- 9)" "given (session ?a)"
    "truthy (load_token (session ?a) (config_token short_world))"
    "extract_final_text sample_loads [line_init] (stderr_text short_world)
       = Inr (JStr ''(no output captured)'')"
    "write_error short_world = None"
    by (simp_all add: sample_run_defs resume_not_found_def load_token_def extract_line_init)
  obtain before after where run:
    "run sample_loads ?a short_world =
       before @ [Terminate, WaitExit 10] @ (if exits_in_grace short_world then [] else [Kill, WaitExit 5])
         @ after"
    and after: "\<forall>out. \<not> resume_not_found ?a (stderr_text short_world) \<and>
         extract_final_text sample_loads (fst (snd (captured sample_loads ?a short_world)))
           (stderr_text short_world) = Inr (JStr out) \<and>
         write_error short_world = None \<longrightarrow>
         after =
           [WriteOutput out,
            PrintDone StatusTimeout (case returncode short_world of Some c \<Rightarrow> c | None \<Rightarrow> - 1)]
           @ (if truthy (session_id (snd (snd (captured sample_loads ?a short_world))))
              then [RegisterSession (session_id (snd (snd (captured sample_loads ?a short_world))))
                      ''timeout'']
              else [])
           @ (if given (session ?a) \<and> truthy (load_token (session ?a) (config_token short_world))
              then [NotifySession (TimeoutMsg (tool_calls (snd (snd (captured sample_loads ?a short_world))))
                      (take 2000 out))]
              else [])"
    using timeout_kills_and_classifies [OF reach, of sample_loads] by blast
  have "after = [WriteOutput ''(no output captured)'', PrintDone StatusTimeout (- 9),
      RegisterSession (JStr ''s-1'') ''timeout'',
      NotifySession (TimeoutMsg 0 ''(no output captured)'')]"
    using after facts by (simp add: cap init_state_def)
  moreover have "run sample_loads ?a short_world =
      [SendWhatsApp LaunchMsg, Terminate, WaitExit 10, Kill, WaitExit 5,
       WriteOutput ''(no output captured)'', PrintDone StatusTimeout (- 9),
       RegisterSession (JStr ''s-1'') ''timeout'',
       NotifySession (TimeoutMsg 0 ''(no output captured)'')]"
    by (simp add: run_defs sample_run_defs init_state_def strip_line_init parse_line_init
        extract_line_init)
  moreover have "reaches_timeout ?a (short_world\<lparr>write_error := Some OSError\<rparr>)"
    by (simp add: reaches_timeout_def sample_run_defs py_int_def)
  moreover have "run sample_loads ?a (short_world\<lparr>write_error := Some OSError\<rparr>) =
      [SendWhatsApp LaunchMsg, Terminate, WaitExit 10, Kill, WaitExit 5,
       NotifySession (CrashMsg OSError)]"
    by (simp add: run_defs sample_run_defs init_state_def strip_line_init parse_line_init
        extract_line_init)
  ultimately show ?thesis
    using reach run facts(7) by simp
qed

lemma run_heartbeat_schedule:
  assumes "can_notify a w"
  shows "heartbeat_times (run loads a w) = heartbeat_schedule (timeout a) 0 (poll_times w)"
  using assms
  by (simp add: run_def conclude_quiet supervise_def poll_times_def main_loop_heartbeat_times)

lemma count_heartbeats: "length (filter is_heartbeat acts) = length (heartbeat_times acts)"
proof (induction acts)
  case Nil
  then show ?case by simp
next
  case (Cons x acts)
  then show ?case by (cases x rule: is_heartbeat.cases) simp_all
qed

lemma schedule_185:
  assumes "180 < limit"
  shows "heartbeat_schedule limit 0 (map (\<lambda>k. 5 * int k) [1..<38]) = [60, 120, 180]"
proof -
  have "map (\<lambda>k. 5 * int k) [1..<38] =
      [5, 10, 15, 20, 25, 30, 35, 40, 45, 50, 55, 60, 65, 70, 75, 80, 85, 90, 95, 100, 105, 110,
       115, 120, 125, 130, 135, 140, 145, 150, 155, 160, 165, 170, 175, 180, 185]"
    by (simp add: upt_rec [of _ "numeral n" for n])
  then show ?thesis
    using assms by simp
qed

text \<open>
  Claim C6. In a run whose polls read 5, 10, ..., 185 seconds of elapsed time, with a group JID
  and a token available and a timeout that does not end the run before, the loop sends
  exactly three heartbeats, at 60, 120 and 180 seconds elapsed.
\<close>

theorem heartbeat_cadence:
  assumes "can_notify a w"
    and "poll_times w = map (\<lambda>k. 5 * int k) [1..<38]"
    and "180 < timeout a"
  shows "heartbeat_times (run loads a w) = [60, 120, 180] \<and>
    length (filter is_heartbeat (run loads a w)) = 3"
proof -
  have "heartbeat_times (run loads a w) = heartbeat_schedule (timeout a) 0 (poll_times w)"
    using assms(1) by (rule run_heartbeat_schedule)
  also have "\<dots> = [60, 120, 180]"
    unfolding assms(2) using assms(3) by (rule schedule_185)
  finally show ?thesis
    by (simp add: count_heartbeats)
qed

lemma py_int_of_int: "py_int (of_int i) = i"
  by (simp add: py_int_def)

lemma poll_times_steady:
  assumes "start_time w = 0" "ticks w = steady_ticks n"
  shows "poll_times w = map (\<lambda>k. 5 * int k) [1..<Suc n]"
proof -
  have "py_int (tick_now \<lparr>tick_lines = [], tick_now = of_int (5 * int k),
      tick_hb_now = of_int (5 * int k)\<rparr> - 0) = 5 * int k" for k
    using py_int_of_int [of "5 * int k"] by simp
  then show ?thesis
    unfolding poll_times_def assms steady_ticks_def map_map comp_def by simp
qed

theorem heartbeat_cadence_witness:
  "can_notify group_args long_world \<and>
   poll_times long_world = map (\<lambda>k. 5 * int k) [1..<38] \<and>
   180 < timeout group_args \<and>
   heartbeat_times (run sample_loads group_args long_world) = [60, 120, 180] \<and>
   length (filter is_heartbeat (run sample_loads group_args long_world)) = 3"
proof -
  have notify: "can_notify group_args long_world"
    by (simp add: can_notify_def extract_group_jid_def load_token_def sample_run_defs)
  have polls: "poll_times long_world = map (\<lambda>k. 5 * int k) [1..<38]"
    using poll_times_steady [of long_world 37] by (simp add: long_world_def short_world_def)
  have limit: "180 < timeout group_args"
    by (simp add: group_args_def)
  show ?thesis
    using heartbeat_cadence [OF notify polls limit, of sample_loads] notify polls limit by simp
qed

lemma extract_group_jid_none:
  assumes "\<forall>s. session_key = Some s \<longrightarrow> (\<forall>p \<in> set (split_on CHR '':'' s). \<not> contains_str ''@g.us'' p)"
  shows "extract_group_jid session_key = None"
proof (cases session_key)
  case None
  then show ?thesis by (simp add: extract_group_jid_def)
next
  case (Some s)
  then have "find (contains_str ''@g.us'') (split_on CHR '':'' s) = None"
    using assms by (simp add: find_None_iff)
  then show ?thesis using Some by (simp add: extract_group_jid_def)
qed

lemma no_target_no_notify:
  assumes "extract_group_jid (session a) = None \<or> config_token w = None"
  shows "\<not> can_notify a w"
  using assms by (auto simp: can_notify_def load_token_def)

lemma run_heartbeats_off:
  assumes "\<not> can_notify a w"
  shows "filter is_heartbeat (run loads a w) = []"
proof -
  obtain hbs where "fst (snd (supervise loads a w)) =
      hbs @ (if reaches_timeout a w then kill_process_graceful (exits_in_grace w) else [])"
    "\<not> can_notify a w \<longrightarrow> hbs = []"
    using supervise_calls by blast
  then show ?thesis
    using assms by (simp add: run_def conclude_quiet)
qed

lemma conclude_deeds:
  assumes "alike_reading rd rd'"
  shows "filter is_deed (conclude loads a w timed_out rd) =
    filter is_deed (conclude loads (a\<lparr>session := s\<rparr>) (w\<lparr>config_token := c\<rparr>) timed_out rd')"
proof -
  have lines: "fst (snd rd) = fst (snd rd')" and sid: "session_id (snd (snd rd)) = session_id (snd (snd rd'))"
    using assms by (simp_all add: alike_reading_def alike_fields)
  have same: "resume_not_found (a\<lparr>session := s\<rparr>) err = resume_not_found a err" for err
    by (simp add: resume_not_found_def)
  show ?thesis
  proof (cases "resume_not_found a (stderr_text w)")
    case True
    then show ?thesis
      by (simp add: conclude_def reconcile_def same Let_def)
  next
    case False
    show ?thesis
    proof (cases "extract_final_text loads (fst (snd rd)) (stderr_text w)")
      case (Inl e)
      then show ?thesis
        using False lines by (simp add: conclude_def reconcile_def same Let_def crash_handler_calls)
    next
      case (Inr v)
      show ?thesis
      proof (cases "write_error w")
        case None
        then show ?thesis
          using False lines sid Inr
          by (cases v) (simp_all add: conclude_def reconcile_def same Let_def crash_handler_calls
              report_saved)
      next
        case (Some e)
        then show ?thesis
          using False lines sid Inr
          by (cases v) (simp_all add: conclude_def reconcile_def same Let_def crash_handler_calls
              report_failed)
      qed
    qed
  qed
qed

lemma run_deeds:
  "filter is_deed (run loads a w) =
     filter is_deed (run loads (a\<lparr>session := s\<rparr>) (w\<lparr>config_token := c\<rparr>))"
proof -
  let ?a = "a\<lparr>session := s\<rparr>" and ?w = "w\<lparr>config_token := c\<rparr>"
  have init: "alike_reading (None, [], init_state (init_time w)) (None, [], init_state (init_time w))"
    by (simp add: alike_reading_def)
  have loop: "fst (supervise loads a w) = fst (supervise loads ?a ?w)"
    "filter is_deed (fst (snd (supervise loads a w))) = filter is_deed (fst (snd (supervise loads ?a ?w)))"
    "alike_reading (snd (snd (supervise loads a w))) (snd (snd (supervise loads ?a ?w)))"
    using main_loop_alike [OF init, of loads "timeout a" "can_notify a w" "start_time w"
        "exits_in_grace w" "ticks w" 0 "can_notify ?a ?w" 0]
    by (simp_all add: supervise_def)
  have "alike_reading (captured loads a w) (captured loads ?a ?w)"
    using read_more_alike [OF loop(3), of loads "tail_lines w"] by (simp add: captured_def)
  then have "filter is_deed (conclude loads a w (fst (supervise loads a w)) (captured loads a w)) =
      filter is_deed (conclude loads ?a ?w (fst (supervise loads ?a ?w)) (captured loads ?a ?w))"
    using conclude_deeds loop(1) by simp
  then show ?thesis
    using loop(2) by (simp add: run_def)
qed

text \<open>
  Claim C10. For every run whose session key has no part containing "@g.us" (none is given, or
  no part between colons contains it), or whose auth token cannot be loaded, no heartbeat is
  sent, however many polls find the subprocess running; and what the run does apart from
  sending messages (the signals to the subprocess on a timeout, the text saved, the status
  printed, the registry entry) is what it does with any other session key and token.
\<close>

theorem no_heartbeat_without_target:
  assumes "(\<forall>key. session a = Some key \<longrightarrow>
              (\<forall>p \<in> set (split_on CHR '':'' key). \<not> contains_str ''@g.us'' p))
           \<or> config_token w = None"
  shows "filter is_heartbeat (run loads a w) = [] \<and>
    filter is_deed (run loads a w) =
      filter is_deed (run loads (a\<lparr>session := s\<rparr>) (w\<lparr>config_token := c\<rparr>))"
proof -
  from assms have "extract_group_jid (session a) = None \<or> config_token w = None"
  proof
    assume "\<forall>key. session a = Some key \<longrightarrow>
      (\<forall>p \<in> set (split_on CHR '':'' key). \<not> contains_str ''@g.us'' p)"
    then have "extract_group_jid (session a) = None"
      by (rule extract_group_jid_none)
    then show ?thesis ..
  next
    assume "config_token w = None"
    then show ?thesis ..
  qed
  then have "\<not> can_notify a w"
    by (rule no_target_no_notify)
  then show ?thesis
    using run_heartbeats_off run_deeds by blast
qed

theorem no_heartbeat_without_target_witness:
  "split_on CHR '':'' ''agent:main'' = [''agent'', ''main''] \<and>
   \<not> contains_str ''@g.us'' ''agent'' \<and> \<not> contains_str ''@g.us'' ''main'' \<and>
   filter is_heartbeat (run sample_loads (group_args\<lparr>session := Some ''agent:main''\<rparr>) long_world) = [] \<and>
   filter is_deed (run sample_loads (group_args\<lparr>session := Some ''agent:main''\<rparr>) long_world) =
     filter is_deed (run sample_loads group_args long_world) \<and>
   heartbeat_times (run sample_loads group_args long_world) = [60, 120, 180]"
proof -
  let ?a = "group_args\<lparr>session := Some ''agent:main''\<rparr>"
  have parts: "split_on CHR '':'' ''agent:main'' = [''agent'', ''main'']"
    "\<not> contains_str ''@g.us'' ''agent''" "\<not> contains_str ''@g.us'' ''main''"
    by simp_all
  then have "(\<forall>key. session ?a = Some key \<longrightarrow>
      (\<forall>p \<in> set (split_on CHR '':'' key). \<not> contains_str ''@g.us'' p))
    \<or> config_token long_world = None"
    by (simp add: group_args_def)
  note off = no_heartbeat_without_target [OF this, of sample_loads "session group_args"
      "config_token long_world"]
  have "?a\<lparr>session := session group_args\<rparr> = group_args"
    "long_world\<lparr>config_token := config_token long_world\<rparr> = long_world"
    by simp_all
  moreover have "can_notify group_args long_world"
    by (simp add: can_notify_def extract_group_jid_def load_token_def sample_run_defs)
  then have "heartbeat_times (run sample_loads group_args long_world) = [60, 120, 180]"
    using poll_times_steady [of long_world 37] schedule_185 [of "timeout group_args"]
    by (simp add: run_heartbeat_schedule sample_run_defs del: upt_Suc)
  ultimately show ?thesis
    using off parts by simp
qed

end
